theory Spec2Isabelle
  imports Complex_Main
begin

section \<open>Numbers of the pricing engine\<close>

text \<open>
  The engine of \<^verbatim>\<open>app.py\<close> computes on IEEE binary64 numbers. A number of the model
  is a finite real, the negative zero, an infinity or NaN; \<open>Fin 0\<close> is \<open>+0.0\<close>. The
  special values follow IEEE 754, and a result that leaves the range of binary64 is
  replaced as round-to-nearest does: by an infinity from \<open>2 ^ 1024 - 2 ^ 970\<close> on, by a
  zero up to \<open>2 ^ -1075\<close>. Inside the range a result is the exact real result: the
  rounding to 53 bits is not modelled, so a finite value of the model stands for the
  binary64 number next to it.
\<close>

datatype xfloat = Fin real | NZero | PInf | NInf | NaN

fun is_finite :: "xfloat \<Rightarrow> bool" where
  "is_finite (Fin x) = True"
| "is_finite NZero = True"
| "is_finite PInf = False"
| "is_finite NInf = False"
| "is_finite NaN = False"

fun is_inf :: "xfloat \<Rightarrow> bool" where
  "is_inf (Fin x) = False"
| "is_inf NZero = False"
| "is_inf PInf = True"
| "is_inf NInf = True"
| "is_inf NaN = False"

fun is_zero :: "xfloat \<Rightarrow> bool" where
  "is_zero (Fin x) = (x = 0)"
| "is_zero NZero = True"
| "is_zero PInf = False"
| "is_zero NInf = False"
| "is_zero NaN = False"

text \<open>The sign bit and the real value of a finite number.\<close>

fun sign_bit :: "xfloat \<Rightarrow> bool" where
  "sign_bit (Fin x) = (x < 0)"
| "sign_bit NZero = True"
| "sign_bit PInf = False"
| "sign_bit NInf = True"
| "sign_bit NaN = False"

fun rv :: "xfloat \<Rightarrow> real" where
  "rv (Fin x) = x"
| "rv NZero = 0"
| "rv PInf = 0"
| "rv NInf = 0"
| "rv NaN = 0"

definition signed_zero :: "bool \<Rightarrow> xfloat" where
  "signed_zero neg = (if neg then NZero else Fin 0)"

definition signed_inf :: "bool \<Rightarrow> xfloat" where
  "signed_inf neg = (if neg then NInf else PInf)"

definition overflow_bound :: real where
  "overflow_bound = 2 ^ 1024 - 2 ^ 970"

definition underflow_bound :: real where
  "underflow_bound = 1 / 2 ^ 1075"

text \<open>The binary64 number for a real result that is not zero.\<close>

definition saturate :: "real \<Rightarrow> xfloat" where
  "saturate v =
     (if overflow_bound \<le> v then PInf
      else if v \<le> - overflow_bound then NInf
      else if \<bar>v\<bar> \<le> underflow_bound then signed_zero (v < 0)
      else Fin v)"

fun xneg :: "xfloat \<Rightarrow> xfloat" where
  "xneg (Fin a) = (if a = 0 then NZero else Fin (- a))"
| "xneg NZero = Fin 0"
| "xneg PInf = NInf"
| "xneg NInf = PInf"
| "xneg NaN = NaN"

text \<open>
  A sum never underflows. An exact zero sum is \<open>+0.0\<close>, except that \<open>-0.0 + -0.0\<close>
  is \<open>-0.0\<close>.
\<close>

definition xadd :: "xfloat \<Rightarrow> xfloat \<Rightarrow> xfloat" where
  "xadd x y =
     (if x = NaN \<or> y = NaN then NaN
      else if (x = PInf \<and> y = NInf) \<or> (x = NInf \<and> y = PInf) then NaN
      else if is_inf x then x
      else if is_inf y then y
      else if rv x + rv y = 0 then (if x = NZero \<and> y = NZero then NZero else Fin 0)
      else if overflow_bound \<le> rv x + rv y then PInf
      else if rv x + rv y \<le> - overflow_bound then NInf
      else Fin (rv x + rv y))"

definition xsub :: "xfloat \<Rightarrow> xfloat \<Rightarrow> xfloat" where
  "xsub x y = xadd x (xneg y)"

text \<open>The sign of a product or a quotient is the exclusive or of the signs.\<close>

definition xmul :: "xfloat \<Rightarrow> xfloat \<Rightarrow> xfloat" where
  "xmul x y =
     (if x = NaN \<or> y = NaN then NaN
      else if (is_inf x \<and> is_zero y) \<or> (is_zero x \<and> is_inf y) then NaN
      else if is_inf x \<or> is_inf y then signed_inf (sign_bit x \<noteq> sign_bit y)
      else if is_zero x \<or> is_zero y then signed_zero (sign_bit x \<noteq> sign_bit y)
      else saturate (rv x * rv y))"

text \<open>
  NumPy's division: a division by zero is no error (NumPy warns and goes on), it gives an
  infinity, or NaN for \<open>0 / 0\<close>.
\<close>

definition xdiv :: "xfloat \<Rightarrow> xfloat \<Rightarrow> xfloat" where
  "xdiv x y =
     (if x = NaN \<or> y = NaN then NaN
      else if (is_inf x \<and> is_inf y) \<or> (is_zero x \<and> is_zero y) then NaN
      else if is_inf x \<or> is_zero y then signed_inf (sign_bit x \<noteq> sign_bit y)
      else if is_inf y \<or> is_zero x then signed_zero (sign_bit x \<noteq> sign_bit y)
      else saturate (rv x / rv y))"

text \<open>The comparison \<^verbatim>\<open><=\<close>: false as soon as an operand is NaN.\<close>

definition xle :: "xfloat \<Rightarrow> xfloat \<Rightarrow> bool" where
  "xle x y =
     (x \<noteq> NaN \<and> y \<noteq> NaN \<and>
      (x = NInf \<or> y = PInf \<or> (is_finite x \<and> is_finite y \<and> rv x \<le> rv y)))"

text \<open>
  \<^verbatim>\<open>np.log\<close>, \<^verbatim>\<open>np.sqrt\<close> and \<^verbatim>\<open>np.exp\<close>: outside their domain they return NaN or an
  infinity and raise nothing. On binary64 arguments a logarithm and a square root stay in
  range; an exponential overflows to \<open>inf\<close> and underflows to \<open>0.0\<close>.
\<close>

fun np_log :: "xfloat \<Rightarrow> xfloat" where
  "np_log (Fin x) = (if 0 < x then Fin (ln x) else if x = 0 then NInf else NaN)"
| "np_log NZero = NInf"
| "np_log PInf = PInf"
| "np_log NInf = NaN"
| "np_log NaN = NaN"

fun np_sqrt :: "xfloat \<Rightarrow> xfloat" where
  "np_sqrt (Fin x) = (if 0 \<le> x then Fin (sqrt x) else NaN)"
| "np_sqrt NZero = NZero"
| "np_sqrt PInf = PInf"
| "np_sqrt NInf = NaN"
| "np_sqrt NaN = NaN"

fun np_exp :: "xfloat \<Rightarrow> xfloat" where
  "np_exp (Fin x) = saturate (exp x)"
| "np_exp NZero = Fin 1"
| "np_exp PInf = PInf"
| "np_exp NInf = Fin 0"
| "np_exp NaN = NaN"

text \<open>
  The inputs. \<open>S\<close> and \<open>K\<close> carry their Python type, because the division
  \<^verbatim>\<open>S / K\<close> of \<^verbatim>\<open>d1\<close> depends on it: between two built-in floats (what the sliders of
  the page supply) a zero divisor raises \<^verbatim>\<open>ZeroDivisionError\<close>; as soon as one operand is
  a NumPy scalar (the strikes of the chart come from \<^verbatim>\<open>np.linspace\<close>) the division is
  NumPy's. \<open>T\<close>, \<open>r\<close> and \<open>sigma\<close> are built-in floats at every call of the page.
\<close>

datatype kind = PyFloat | NpFloat64

type_synonym scalar = "kind \<times> xfloat"

datatype error = ZeroDivisionError | OverflowError

definition val :: "scalar \<Rightarrow> xfloat" where
  "val s = snd s"

definition truediv :: "scalar \<Rightarrow> scalar \<Rightarrow> error + xfloat" where
  "truediv a b =
     (if fst a = PyFloat \<and> fst b = PyFloat \<and> is_zero (snd b) then Inl ZeroDivisionError
      else Inr (xdiv (snd a) (snd b)))"

text \<open>
  \<^verbatim>\<open>x ** 2\<close> on a built-in float: Python raises \<^verbatim>\<open>OverflowError\<close> where the square
  overflows; a square that underflows is \<open>0.0\<close>.
\<close>

definition xsquare :: "xfloat \<Rightarrow> error + xfloat" where
  "xsquare x =
     (if x = NaN then Inr NaN
      else if is_inf x then Inr PInf
      else if overflow_bound \<le> rv x * rv x then Inl OverflowError
      else if rv x * rv x \<le> underflow_bound then Inr (Fin 0)
      else Inr (Fin (rv x * rv x)))"

text \<open>
  A real result is in range when binary64 has a number next to it that is neither a zero
  nor an infinity.
\<close>

definition in_range :: "real \<Rightarrow> bool" where
  "in_range v \<longleftrightarrow> underflow_bound < \<bar>v\<bar> \<and> \<bar>v\<bar> < overflow_bound"

section \<open>The standard normal distribution\<close>

text \<open>
  \<^verbatim>\<open>scipy.stats.norm\<close> is a library of its own, not code of the engine. As with
  \<^verbatim>\<open>np.log\<close>, \<^verbatim>\<open>np.sqrt\<close> and \<^verbatim>\<open>np.exp\<close>, its two functions are modelled on
  finite arguments by the functions they approximate: the density is the closed form
  \<open>exp (- x\<^sup>2 / 2) / sqrt (2 * pi)\<close>, and the distribution function is the primitive of
  the density that vanishes at \<open>-\<infinity>\<close>.

  The distribution function is written without integrals, as its power series at 0,
  \<open>1 / 2 + x * (\<Sum>n. (- 1 / 2) ^ n / (n! * (2 * n + 1)) * x ^ (2 * n)) / sqrt (2 * pi)\<close>.
  The results below show that this function has the density as its derivative, is
  increasing from the limit 0 at \<open>-\<infinity>\<close> to the limit 1 at \<open>\<infinity>\<close>, and is
  symmetric: it is the standard normal distribution function.
\<close>

definition std_normal_density :: "real \<Rightarrow> real" where
  "std_normal_density x = exp (- x\<^sup>2 / 2) / sqrt (2 * pi)"

definition gauss_coeff :: "nat \<Rightarrow> real" where
  "gauss_coeff n = (- 1 / 2) ^ n / (fact n * (2 * real n + 1))"

definition gauss_series :: "real \<Rightarrow> real" where
  "gauss_series y = (\<Sum>n. gauss_coeff n * y ^ n)"

definition density_primitive :: "real \<Rightarrow> real" where
  "density_primitive x = x * gauss_series (x\<^sup>2) / sqrt (2 * pi)"

definition std_normal_cdf :: "real \<Rightarrow> real" where
  "std_normal_cdf x = 1 / 2 + density_primitive x"

text \<open>
  At the special values both functions follow SciPy: the distribution function is 1 at
  \<open>inf\<close> and 0 at \<open>-inf\<close>, the density is 0 at both, and NaN gives NaN. On finite
  arguments the value is brought into binary64 at its two ends: a density or a probability
  up to \<open>2 ^ -1075\<close> is \<open>0.0\<close>, and a probability from \<open>1 - 2 ^ -54\<close> on is \<open>1.0\<close>.
  (SciPy's \<^verbatim>\<open>ndtr\<close> reaches \<open>0.0\<close> a little earlier than its exact value does, near
  \<open>-37.7\<close> instead of \<open>-38.6\<close>; where a result below rests on a probability \<open>0.0\<close> or
  \<open>1.0\<close>, the argument is beyond 47 in absolute value, far from both points.)
\<close>

fun norm_pdf :: "xfloat \<Rightarrow> xfloat" where
  "norm_pdf (Fin x) = saturate (std_normal_density x)"
| "norm_pdf NZero = Fin (std_normal_density 0)"
| "norm_pdf PInf = Fin 0"
| "norm_pdf NInf = Fin 0"
| "norm_pdf NaN = NaN"

fun norm_cdf :: "xfloat \<Rightarrow> xfloat" where
  "norm_cdf (Fin x) =
     (if std_normal_cdf x \<le> underflow_bound then Fin 0
      else if 1 - 1 / 2 ^ 54 \<le> std_normal_cdf x then Fin 1
      else Fin (std_normal_cdf x))"
| "norm_cdf NZero = Fin (1 / 2)"
| "norm_cdf PInf = Fin 1"
| "norm_cdf NInf = Fin 0"
| "norm_cdf NaN = NaN"

section \<open>The engine\<close>

definition d1 :: "scalar \<Rightarrow> scalar \<Rightarrow> xfloat \<Rightarrow> xfloat \<Rightarrow> xfloat \<Rightarrow> error + xfloat" where
  "d1 S K T r sigma =
     (case truediv S K of
        Inl e \<Rightarrow> Inl e
      | Inr q \<Rightarrow>
          (case xsquare sigma of
             Inl e \<Rightarrow> Inl e
           | Inr sq \<Rightarrow>
               Inr (xdiv (xadd (np_log q) (xmul (xadd r (xmul (Fin 0.5) sq)) T))
                         (xmul sigma (np_sqrt T)))))"

definition d2 :: "scalar \<Rightarrow> scalar \<Rightarrow> xfloat \<Rightarrow> xfloat \<Rightarrow> xfloat \<Rightarrow> error + xfloat" where
  "d2 S K T r sigma =
     (case d1 S K T r sigma of
        Inl e \<Rightarrow> Inl e
      | Inr D \<Rightarrow> Inr (xsub D (xmul sigma (np_sqrt T))))"

definition black_scholes ::
  "scalar \<Rightarrow> scalar \<Rightarrow> xfloat \<Rightarrow> xfloat \<Rightarrow> xfloat \<Rightarrow> error + (xfloat \<times> xfloat)" where
  "black_scholes S K T r sigma =
     (case d1 S K T r sigma of
        Inl e \<Rightarrow> Inl e
      | Inr D1 \<Rightarrow>
          (case d2 S K T r sigma of
             Inl e \<Rightarrow> Inl e
           | Inr D2 \<Rightarrow>
               (let call_price =
                      xsub (xmul (val S) (norm_cdf D1))
                           (xmul (xmul (val K) (np_exp (xmul (xneg r) T))) (norm_cdf D2));
                    put_price =
                      xsub (xmul (xmul (val K) (np_exp (xmul (xneg r) T))) (norm_cdf (xneg D2)))
                           (xmul (val S) (norm_cdf (xneg D1)))
                in Inr (call_price, put_price))))"

definition calculate_greeks ::
  "scalar \<Rightarrow> scalar \<Rightarrow> xfloat \<Rightarrow> xfloat \<Rightarrow> xfloat \<Rightarrow>
   error + (xfloat \<times> xfloat \<times> xfloat \<times> xfloat)" where
  "calculate_greeks S K T r sigma =
     (case d1 S K T r sigma of
        Inl e \<Rightarrow> Inl e
      | Inr D1 \<Rightarrow>
          (case d2 S K T r sigma of
             Inl e \<Rightarrow> Inl e
           | Inr D2 \<Rightarrow>
               (let delta = norm_cdf D1;
                    theta =
                      xsub (xneg (xdiv (xmul (xmul (val S) (norm_pdf D1)) sigma)
                                       (xmul (Fin 2) (np_sqrt T))))
                           (xmul (xmul (xmul r (val K)) (np_exp (xmul (xneg r) T)))
                                 (norm_cdf D2));
                    vega = xmul (xmul (val S) (norm_pdf D1)) (np_sqrt T);
                    rho = xmul (xmul (xmul (val K) T) (np_exp (xmul (xneg r) T)))
                               (norm_cdf D2)
                in Inr (delta, theta, vega, rho))))"

section \<open>The formulas of the specification\<close>

text \<open>
  The specification gives \<^verbatim>\<open>d1\<close>, \<^verbatim>\<open>d2\<close>, the two prices and the four Greeks by
  formulas. The definitions of this section follow its words, with every operation of a
  formula a binary64 operation and \<open>\<sigma>\<^sup>2\<close> the product \<open>\<sigma> \<sigma>\<close>. The results compare them with
  the functions of the engine.
\<close>

definition spec_d1 :: "xfloat \<Rightarrow> xfloat \<Rightarrow> xfloat \<Rightarrow> xfloat \<Rightarrow> xfloat \<Rightarrow> xfloat" where
  "spec_d1 S K T r sigma =
     xdiv (xadd (np_log (xdiv S K)) (xmul (xadd r (xmul (Fin 0.5) (xmul sigma sigma))) T))
          (xmul sigma (np_sqrt T))"

definition spec_d2 :: "xfloat \<Rightarrow> xfloat \<Rightarrow> xfloat \<Rightarrow> xfloat \<Rightarrow> xfloat \<Rightarrow> xfloat" where
  "spec_d2 S K T r sigma = xsub (spec_d1 S K T r sigma) (xmul sigma (np_sqrt T))"

definition spec_discounted :: "xfloat \<Rightarrow> xfloat \<Rightarrow> xfloat \<Rightarrow> xfloat" where
  "spec_discounted K T r = xmul K (np_exp (xmul (xneg r) T))"

definition spec_call :: "xfloat \<Rightarrow> xfloat \<Rightarrow> xfloat \<Rightarrow> xfloat \<Rightarrow> xfloat \<Rightarrow> xfloat" where
  "spec_call S K T r sigma =
     xsub (xmul S (norm_cdf (spec_d1 S K T r sigma)))
          (xmul (spec_discounted K T r) (norm_cdf (spec_d2 S K T r sigma)))"

definition spec_put :: "xfloat \<Rightarrow> xfloat \<Rightarrow> xfloat \<Rightarrow> xfloat \<Rightarrow> xfloat \<Rightarrow> xfloat" where
  "spec_put S K T r sigma =
     xsub (xmul (spec_discounted K T r) (norm_cdf (xneg (spec_d2 S K T r sigma))))
          (xmul S (norm_cdf (xneg (spec_d1 S K T r sigma))))"

definition spec_delta :: "xfloat \<Rightarrow> xfloat \<Rightarrow> xfloat \<Rightarrow> xfloat \<Rightarrow> xfloat \<Rightarrow> xfloat" where
  "spec_delta S K T r sigma = norm_cdf (spec_d1 S K T r sigma)"

definition spec_theta :: "xfloat \<Rightarrow> xfloat \<Rightarrow> xfloat \<Rightarrow> xfloat \<Rightarrow> xfloat \<Rightarrow> xfloat" where
  "spec_theta S K T r sigma =
     xsub (xneg (xdiv (xmul (xmul S (norm_pdf (spec_d1 S K T r sigma))) sigma)
                      (xmul (Fin 2) (np_sqrt T))))
          (xmul (xmul (xmul r K) (np_exp (xmul (xneg r) T)))
                (norm_cdf (spec_d2 S K T r sigma)))"

definition spec_vega :: "xfloat \<Rightarrow> xfloat \<Rightarrow> xfloat \<Rightarrow> xfloat \<Rightarrow> xfloat \<Rightarrow> xfloat" where
  "spec_vega S K T r sigma = xmul (xmul S (norm_pdf (spec_d1 S K T r sigma))) (np_sqrt T)"

definition spec_rho :: "xfloat \<Rightarrow> xfloat \<Rightarrow> xfloat \<Rightarrow> xfloat \<Rightarrow> xfloat \<Rightarrow> xfloat" where
  "spec_rho S K T r sigma =
     xmul (xmul (xmul K T) (np_exp (xmul (xneg r) T))) (norm_cdf (spec_d2 S K T r sigma))"

text \<open>
  The two ways in which the engine raises: the division \<^verbatim>\<open>S / K\<close> between built-in
  floats with a zero divisor, and the power \<^verbatim>\<open>sigma ** 2\<close> whose result overflows.
\<close>

definition div_by_zero :: "scalar \<Rightarrow> scalar \<Rightarrow> bool" where
  "div_by_zero S K \<longleftrightarrow> fst S = PyFloat \<and> fst K = PyFloat \<and> is_zero (snd K)"

definition square_overflows :: "xfloat \<Rightarrow> bool" where
  "square_overflows sigma \<longleftrightarrow> is_finite sigma \<and> overflow_bound \<le> rv sigma * rv sigma"


text \<open>A number is NaN or has its sign bit clear.\<close>

definition pos_or_nan :: "xfloat \<Rightarrow> bool" where
  "pos_or_nan x \<longleftrightarrow> x = NaN \<or> \<not> sign_bit x"

section \<open>Two families of primitives\<close>

text \<open>
  The total mass of the density is found by comparing \<open>exp (- x\<^sup>2 / 2)\<close> with powers of
  \<open>1 / (1 + x\<^sup>2)\<close> and of \<open>1 - x\<^sup>2\<close>, whose primitives have closed recursions:
  \<open>cauchy_primitive k\<close> is the primitive of \<open>1 / (1 + x\<^sup>2) ^ (k + 1)\<close> through 0 and
  \<open>cauchy_mass k\<close> its limit at \<open>\<infinity>\<close>; \<open>cap_primitive n\<close> is the primitive of
  \<open>(1 - x\<^sup>2) ^ n\<close> through 0 and \<open>cap_mass n\<close> its value at 1.
\<close>

fun cauchy_primitive :: "nat \<Rightarrow> real \<Rightarrow> real" where
  "cauchy_primitive 0 x = arctan x"
| "cauchy_primitive (Suc k) x =
     (x / (1 + x\<^sup>2) ^ Suc k + (2 * real k + 1) * cauchy_primitive k x) / (2 * real k + 2)"

fun cauchy_mass :: "nat \<Rightarrow> real" where
  "cauchy_mass 0 = pi / 2"
| "cauchy_mass (Suc k) = (2 * real k + 1) / (2 * real k + 2) * cauchy_mass k"

fun cap_primitive :: "nat \<Rightarrow> real \<Rightarrow> real" where
  "cap_primitive 0 x = x"
| "cap_primitive (Suc n) x =
     (x * (1 - x\<^sup>2) ^ Suc n + (2 * real n + 2) * cap_primitive n x) / (2 * real n + 3)"

fun cap_mass :: "nat \<Rightarrow> real" where
  "cap_mass 0 = 1"
| "cap_mass (Suc n) = (2 * real n + 2) / (2 * real n + 3) * cap_mass n"

section \<open>Results\<close>

subsection \<open>The primitive of the density\<close>

lemma mult_div_cancel: "a \<noteq> 0 \<Longrightarrow> a * (b / a) = (b::real)"
  by simp

lemma gauss_coeff_bound: "\<bar>gauss_coeff n * y ^ n\<bar> \<le> inverse (fact n) * \<bar>y\<bar> ^ n"
proof -
  have a: "\<bar>gauss_coeff n\<bar> = (1 / 2) ^ n / (fact n * (2 * real n + 1))"
    by (simp add: gauss_coeff_def abs_mult power_abs)
  have "(1 / 2 :: real) ^ n \<le> 1"
    by (simp add: power_le_one)
  moreover have "(1::real) \<le> 2 * real n + 1"
    by simp
  ultimately have "(1 / 2) ^ n / (fact n * (2 * real n + 1)) \<le> 1 / (fact n * 1)"
    by (intro frac_le mult_left_mono) simp_all
  then have "\<bar>gauss_coeff n\<bar> \<le> inverse (fact n)"
    by (simp add: a inverse_eq_divide)
  then show ?thesis
    by (simp add: abs_mult power_abs mult_right_mono)
qed

lemma summable_gauss: "summable (\<lambda>n. gauss_coeff n * y ^ n)"
proof (rule summable_rabs_cancel, rule summable_rabs_comparison_test)
  show "\<exists>N. \<forall>n\<ge>N. \<bar>gauss_coeff n * y ^ n\<bar> \<le> inverse (fact n) * \<bar>y\<bar> ^ n"
    using gauss_coeff_bound by blast
  show "summable (\<lambda>n. inverse (fact n) * \<bar>y\<bar> ^ n)"
    by (rule summable_exp)
qed

lemma exp_terms: "(\<lambda>n. (2 * real n + 1) * (gauss_coeff n * y ^ n)) sums exp (- y / 2)"
proof -
  have "(\<lambda>n. (- y / 2) ^ n /\<^sub>R fact n) sums exp (- y / 2)"
    by (rule exp_converges)
  moreover have "(- y / 2) ^ n /\<^sub>R fact n = (2 * real n + 1) * (gauss_coeff n * y ^ n)" for n
  proof -
    have p: "(- y / 2) ^ n = (- 1 / 2) ^ n * y ^ n"
      by (simp add: power_mult_distrib [symmetric])
    have nz: "2 * real n + 1 \<noteq> 0"
      by (simp add: add_nonneg_eq_0_iff)
    have "gauss_coeff n = ((- 1 / 2) ^ n / fact n) / (2 * real n + 1)"
      by (simp add: gauss_coeff_def)
    moreover have "a * (b / a) = b" if "a \<noteq> 0" for a b :: real
      using that by simp
    ultimately have "(2 * real n + 1) * gauss_coeff n = (- 1 / 2) ^ n / fact n"
      using nz by (simp only:)
    then have "(2 * real n + 1) * (gauss_coeff n * y ^ n) = (- 1 / 2) ^ n / fact n * y ^ n"
      by (simp only: mult.assoc [symmetric])
    also have "\<dots> = (- 1 / 2) ^ n * y ^ n / fact n"
      by simp
    also have "\<dots> = (- y / 2) ^ n / fact n"
      by (simp only: p)
    also have "\<dots> = (- y / 2) ^ n /\<^sub>R fact n"
      by (simp only: real_scaleR_def divide_inverse mult.commute)
    finally show ?thesis ..
  qed
  ultimately show ?thesis
    by simp
qed

lemma gauss_series_deriv:
  "(gauss_series has_real_derivative (\<Sum>n. diffs gauss_coeff n * y ^ n)) (at y)"
  unfolding gauss_series_def
  by (rule termdiffs_strong_converges_everywhere) (rule summable_gauss)

lemma gauss_series_ode:
  "gauss_series y + 2 * y * (\<Sum>n. diffs gauss_coeff n * y ^ n) = exp (- y / 2)"
proof -
  let ?g = "\<lambda>n. gauss_coeff n * y ^ n"
  let ?k = "\<lambda>n. 2 * real n * (gauss_coeff n * y ^ n)"
  have e: "(\<lambda>n. ?g n + ?k n) sums exp (- y / 2)"
    using exp_terms [of y] by (simp add: algebra_simps)
  have sg: "summable ?g"
    by (rule summable_gauss)
  have "summable (\<lambda>n. (?g n + ?k n) - ?g n)"
    by (rule summable_diff [OF sums_summable [OF e] sg])
  then have sk: "summable ?k"
    by simp
  have "(\<Sum>n. ?k (Suc n)) = suminf ?k - ?k 0"
    by (rule suminf_split_head [OF sk])
  then have shift: "(\<Sum>n. ?k (Suc n)) = suminf ?k"
    by simp
  have "(\<lambda>n. ?k (Suc n)) = (\<lambda>n. 2 * y * (diffs gauss_coeff n * y ^ n))"
    by (rule ext) (simp add: diffs_def algebra_simps)
  then have "(\<Sum>n. ?k (Suc n)) = (\<Sum>n. 2 * y * (diffs gauss_coeff n * y ^ n))"
    by (simp only:)
  also have "\<dots> = 2 * y * (\<Sum>n. diffs gauss_coeff n * y ^ n)"
    by (rule suminf_mult) (rule termdiff_converges_all, rule summable_gauss)
  finally have "2 * y * (\<Sum>n. diffs gauss_coeff n * y ^ n) = suminf ?k"
    using shift by simp
  moreover have "suminf ?g + suminf ?k = (\<Sum>n. ?g n + ?k n)"
    by (rule suminf_add [OF sg sk])
  moreover have "(\<Sum>n. ?g n + ?k n) = exp (- y / 2)"
    using e by (rule sums_unique [symmetric])
  ultimately show ?thesis
    by (simp add: gauss_series_def)
qed

lemma density_primitive_deriv:
  "(density_primitive has_real_derivative std_normal_density x) (at x)"
proof -
  have "((\<lambda>x. x * gauss_series (x\<^sup>2)) has_real_derivative
      (1 * gauss_series (x\<^sup>2)
        + x * ((\<Sum>n. diffs gauss_coeff n * (x\<^sup>2) ^ n) * (2 * x)))) (at x)"
    by (rule derivative_eq_intros DERIV_chain2 [OF gauss_series_deriv] refl | simp)+
  moreover have "1 * gauss_series (x\<^sup>2)
        + x * ((\<Sum>n. diffs gauss_coeff n * (x\<^sup>2) ^ n) * (2 * x)) = exp (- x\<^sup>2 / 2)"
    using gauss_series_ode [of "x\<^sup>2"] by (simp add: power2_eq_square algebra_simps)
  ultimately have "((\<lambda>x. x * gauss_series (x\<^sup>2)) has_real_derivative exp (- x\<^sup>2 / 2)) (at x)"
    by simp
  then have "((\<lambda>x. x * gauss_series (x\<^sup>2) / sqrt (2 * pi)) has_real_derivative
      exp (- x\<^sup>2 / 2) / sqrt (2 * pi)) (at x)"
    by (rule DERIV_cdivide)
  then show ?thesis
    unfolding density_primitive_def [abs_def] std_normal_density_def .
qed

lemma std_normal_density_pos: "0 < std_normal_density x"
  by (simp add: std_normal_density_def)

lemma density_primitive_mono:
  assumes "x \<le> y"
  shows "density_primitive x \<le> density_primitive y"
proof (rule DERIV_nonneg_imp_nondecreasing [OF assms])
  fix z
  show "\<exists>d. (density_primitive has_real_derivative d) (at z) \<and> 0 \<le> d"
    using density_primitive_deriv [of z] std_normal_density_pos [of z]
    by (blast intro: less_imp_le)
qed

lemma density_primitive_zero: "density_primitive 0 = 0"
  by (simp add: density_primitive_def)

subsection \<open>The total mass of the density\<close>

lemma cauchy_primitive_step_algebra:
  fixes w W c x :: real
  assumes "w = 1 + x * x" "0 < w" "0 < W" "0 < c"
  shows "((1 * (w * W) - x * (c * (2 * x * W))) / ((w * W) * (w * W))
          + (2 * c - 1) * (1 / (w * W))) / (2 * c) = 1 / (w * (w * W))"
proof -
  have "(1 * (w * W) - x * (c * (2 * x * W))) / ((w * W) * (w * W))
      = (w - 2 * c * (x * x)) / (w * (w * W))"
    using assms(2,3) by (simp add: field_simps)
  moreover have "(2 * c - 1) * (1 / (w * W)) = (2 * c - 1) * w / (w * (w * W))"
    using assms(2,3) by (simp add: field_simps)
  ultimately have "(1 * (w * W) - x * (c * (2 * x * W))) / ((w * W) * (w * W))
          + (2 * c - 1) * (1 / (w * W)) = (w - 2 * c * (x * x) + (2 * c - 1) * w) / (w * (w * W))"
    by (simp add: add_divide_distrib)
  also have "w - 2 * c * (x * x) + (2 * c - 1) * w = 2 * c"
    unfolding assms(1) by (simp add: algebra_simps)
  finally show ?thesis
    using assms(4) by simp
qed

lemma cauchy_primitive_deriv: "(cauchy_primitive k has_real_derivative 1 / (1 + x\<^sup>2) ^ Suc k) (at x)"
proof (induction k)
  case 0
  show ?case
    using DERIV_arctan [of x] by (simp add: inverse_eq_divide [symmetric] del: inverse_eq_divide)
next
  case (Suc k)
  let ?w = "1 + x\<^sup>2"
  have w: "0 < ?w"
    by (simp add: add_pos_nonneg)
  have base: "((\<lambda>x. 1 + x\<^sup>2) has_real_derivative 2 * x) (at x)"
    by (auto intro!: derivative_eq_intros)
  have "((\<lambda>x. (1 + x\<^sup>2) ^ Suc k) has_real_derivative
      of_nat (Suc k) * (2 * x * ?w ^ (Suc k - Suc 0))) (at x)"
    by (rule DERIV_power [OF base])
  then have pw: "((\<lambda>x. (1 + x\<^sup>2) ^ Suc k) has_real_derivative
      (real k + 1) * (2 * x * ?w ^ k)) (at x)"
    by (simp add: add.commute)
  have "?w ^ Suc k \<noteq> 0"
    using w by simp
  then have a: "((\<lambda>x. x / (1 + x\<^sup>2) ^ Suc k) has_real_derivative
      (1 * ?w ^ Suc k - x * ((real k + 1) * (2 * x * ?w ^ k))) / (?w ^ Suc k * ?w ^ Suc k)) (at x)"
    by (rule DERIV_divide [OF DERIV_ident pw])
  have b: "((\<lambda>x. (2 * real k + 1) * cauchy_primitive k x) has_real_derivative
      (2 * real k + 1) * (1 / ?w ^ Suc k)) (at x)"
    by (rule DERIV_cmult [OF Suc.IH])
  have c: "((\<lambda>x. (x / (1 + x\<^sup>2) ^ Suc k + (2 * real k + 1) * cauchy_primitive k x) / (2 * real k + 2))
      has_real_derivative
      ((1 * ?w ^ Suc k - x * ((real k + 1) * (2 * x * ?w ^ k))) / (?w ^ Suc k * ?w ^ Suc k)
       + (2 * real k + 1) * (1 / ?w ^ Suc k)) / (2 * real k + 2)) (at x)"
    by (rule DERIV_cdivide [OF DERIV_add [OF a b]])
  have "((1 * (?w * ?w ^ k) - x * ((real k + 1) * (2 * x * ?w ^ k)))
          / ((?w * ?w ^ k) * (?w * ?w ^ k))
          + (2 * (real k + 1) - 1) * (1 / (?w * ?w ^ k))) / (2 * (real k + 1))
      = 1 / (?w * (?w * ?w ^ k))"
    using w by (intro cauchy_primitive_step_algebra) (simp_all add: power2_eq_square)
  then have "((1 * ?w ^ Suc k - x * ((real k + 1) * (2 * x * ?w ^ k))) / (?w ^ Suc k * ?w ^ Suc k)
       + (2 * real k + 1) * (1 / ?w ^ Suc k)) / (2 * real k + 2) = 1 / ?w ^ Suc (Suc k)"
    by (simp add: algebra_simps)
  then show ?case
    using c by (simp add: fun_eq_iff [symmetric] del: power_Suc)
qed

lemma cap_primitive_deriv: "(cap_primitive n has_real_derivative (1 - x\<^sup>2) ^ n) (at x)"
proof (induction n)
  case 0
  show ?case
    by (simp add: fun_eq_iff [symmetric])
next
  case (Suc n)
  let ?v = "1 - x\<^sup>2"
  have base: "((\<lambda>x. 1 - x\<^sup>2) has_real_derivative - (2 * x)) (at x)"
    by (auto intro!: derivative_eq_intros)
  have "((\<lambda>x. (1 - x\<^sup>2) ^ Suc n) has_real_derivative
      of_nat (Suc n) * (- (2 * x) * ?v ^ (Suc n - Suc 0))) (at x)"
    by (rule DERIV_power [OF base])
  then have pw: "((\<lambda>x. (1 - x\<^sup>2) ^ Suc n) has_real_derivative
      (real n + 1) * (- (2 * x) * ?v ^ n)) (at x)"
    by (simp add: add.commute)
  have a: "((\<lambda>x. x * (1 - x\<^sup>2) ^ Suc n) has_real_derivative
      1 * ?v ^ Suc n + (real n + 1) * (- (2 * x) * ?v ^ n) * x) (at x)"
    by (rule DERIV_mult [OF DERIV_ident pw])
  have b: "((\<lambda>x. (2 * real n + 2) * cap_primitive n x) has_real_derivative
      (2 * real n + 2) * ?v ^ n) (at x)"
    by (rule DERIV_cmult [OF Suc.IH])
  have c: "((\<lambda>x. (x * (1 - x\<^sup>2) ^ Suc n + (2 * real n + 2) * cap_primitive n x) / (2 * real n + 3))
      has_real_derivative
      (1 * ?v ^ Suc n + (real n + 1) * (- (2 * x) * ?v ^ n) * x + (2 * real n + 2) * ?v ^ n)
      / (2 * real n + 3)) (at x)"
    by (rule DERIV_cdivide [OF DERIV_add [OF a b]])
  have "1 * ?v ^ Suc n + (real n + 1) * (- (2 * x) * ?v ^ n) * x + (2 * real n + 2) * ?v ^ n
      = (2 * real n + 3) * ?v ^ Suc n"
    by (simp add: algebra_simps power2_eq_square)
  moreover have "2 * real n + 3 \<noteq> 0"
    by (simp add: add_nonneg_eq_0_iff)
  ultimately have "(1 * ?v ^ Suc n + (real n + 1) * (- (2 * x) * ?v ^ n) * x
      + (2 * real n + 2) * ?v ^ n) / (2 * real n + 3) = ?v ^ Suc n"
    by (metis nonzero_mult_div_cancel_left)
  then show ?case
    using c by (simp add: fun_eq_iff [symmetric] del: power_Suc)
qed

lemma frac_cancel: "b \<noteq> 0 \<Longrightarrow> b / c * (a / b) = a / (c::real)"
  by simp

lemma frac_cancel2: "a \<noteq> 0 \<Longrightarrow> a / c * (p / (2 * a)) = p / (2 * (c::real))"
  by simp

lemma one_plus_square_power_pos: "0 < (1 + x\<^sup>2) ^ n" for x :: real
proof -
  have "0 < 1 + x\<^sup>2"
    by (simp add: add_pos_nonneg)
  then show ?thesis
    by (rule zero_less_power)
qed

lemma cauchy_primitive_zero: "cauchy_primitive k 0 = 0"
  by (induction k) simp_all

lemma cap_primitive_zero: "cap_primitive n 0 = 0"
  by (induction n) simp_all

lemma cap_primitive_one: "cap_primitive n 1 = cap_mass n"
  by (induction n) simp_all

lemma cauchy_mass_pos: "0 < cauchy_mass k"
  by (induction k) (simp_all add: add_pos_nonneg)

lemma cap_mass_pos: "0 < cap_mass n"
  by (induction n) (simp_all add: add_pos_nonneg)

lemma cap_cauchy_mass_product: "cap_mass n * cauchy_mass n = pi / (2 * (2 * real n + 1))"
proof (induction n)
  case 0
  show ?case by simp
next
  case (Suc n)
  have nz: "2 * real n + 1 \<noteq> 0" "2 * real n + 2 \<noteq> 0" "2 * real n + 3 \<noteq> 0"
    by (simp_all add: add_nonneg_eq_0_iff)
  have "cap_mass (Suc n) * cauchy_mass (Suc n) =
      ((2 * real n + 2) / (2 * real n + 3) * ((2 * real n + 1) / (2 * real n + 2))) * (cap_mass n * cauchy_mass n)"
    by (simp add: mult_ac)
  also have "(2 * real n + 2) / (2 * real n + 3) * ((2 * real n + 1) / (2 * real n + 2))
      = (2 * real n + 1) / (2 * real n + 3)"
    using nz(2) by (rule frac_cancel)
  also have "(2 * real n + 1) / (2 * real n + 3) * (cap_mass n * cauchy_mass n) = pi / (2 * (2 * real n + 3))"
    unfolding Suc.IH using nz(1) by (rule frac_cancel2)
  also have "2 * real n + 3 = 2 * real (Suc n) + 1"
    by simp
  finally show ?case .
qed

lemma cauchy_primitive_mono:
  assumes "x \<le> y"
  shows "cauchy_primitive k x \<le> cauchy_primitive k y"
proof (rule DERIV_nonneg_imp_nondecreasing [OF assms])
  fix z :: real
  have "0 < (1 + z\<^sup>2) ^ Suc k"
    by (rule one_plus_square_power_pos)
  then have "0 \<le> 1 / (1 + z\<^sup>2) ^ Suc k"
    by (simp only: zero_le_divide_1_iff less_imp_le)
  then show "\<exists>d. (cauchy_primitive k has_real_derivative d) (at z) \<and> 0 \<le> d"
    using cauchy_primitive_deriv [of k z] by blast
qed

lemma cauchy_primitive_tendsto: "(cauchy_primitive k \<longlongrightarrow> cauchy_mass k) at_top"
proof (induction k)
  case 0
  have "(arctan \<longlongrightarrow> pi / 2) at_top"
    by (rule tendsto_arctan_at_top)
  then show ?case
    by (simp add: fun_eq_iff [symmetric])
next
  case (Suc k)
  have small: "((\<lambda>x::real. x / (1 + x\<^sup>2) ^ Suc k) \<longlongrightarrow> 0) at_top"
  proof (rule tendsto_sandwich [where f = "\<lambda>x::real. 0::real" and h = "\<lambda>x::real. inverse x"])
    show "((\<lambda>x::real. 0) \<longlongrightarrow> (0::real)) at_top"
      by simp
    show "((\<lambda>x::real. inverse x) \<longlongrightarrow> 0) at_top"
      by (rule tendsto_inverse_0_at_top [OF filterlim_ident])
    show "eventually (\<lambda>x::real. 0 \<le> x / (1 + x\<^sup>2) ^ Suc k) at_top"
      unfolding eventually_at_top_linorder
      using one_plus_square_power_pos [of _ "Suc k"]
      by (intro exI [of _ 0] allI impI divide_nonneg_pos) auto
    show "eventually (\<lambda>x::real. x / (1 + x\<^sup>2) ^ Suc k \<le> inverse x) at_top"
      unfolding eventually_at_top_linorder
    proof (intro exI [of _ 1] allI impI)
      fix x :: real
      assume x: "1 \<le> x"
      have "x * x \<le> 1 + x\<^sup>2"
        by (simp add: power2_eq_square)
      also have "\<dots> \<le> (1 + x\<^sup>2) * (1 + x\<^sup>2) ^ k"
      proof -
        have "1 \<le> (1 + x\<^sup>2) ^ k"
          by (rule one_le_power) simp
        then have "(1 + x\<^sup>2) * 1 \<le> (1 + x\<^sup>2) * (1 + x\<^sup>2) ^ k"
          by (rule mult_left_mono) simp
        then show ?thesis
          by simp
      qed
      finally have "x * x \<le> (1 + x\<^sup>2) ^ Suc k"
        by simp
      moreover have "0 < (1 + x\<^sup>2) ^ Suc k"
        by (rule one_plus_square_power_pos)
      ultimately show "x / (1 + x\<^sup>2) ^ Suc k \<le> inverse x"
        using x by (simp add: field_simps)
    qed
  qed
  have "((\<lambda>x. (x / (1 + x\<^sup>2) ^ Suc k + (2 * real k + 1) * cauchy_primitive k x) / (2 * real k + 2))
      \<longlongrightarrow> (0 + (2 * real k + 1) * cauchy_mass k) / (2 * real k + 2)) at_top"
    by (intro tendsto_intros small Suc.IH) (simp add: add_nonneg_eq_0_iff)
  then show ?case
    by (simp add: fun_eq_iff [symmetric] del: power_Suc)
qed

lemma cauchy_primitive_le: "cauchy_primitive k x \<le> cauchy_mass k"
proof (rule tendsto_lowerbound [OF cauchy_primitive_tendsto])
  show "eventually (\<lambda>y. cauchy_primitive k x \<le> cauchy_primitive k y) at_top"
    unfolding eventually_at_top_linorder using cauchy_primitive_mono by blast
qed simp

lemma cap_primitive_mono_unit:
  assumes "0 \<le> x" "x \<le> y" "y \<le> 1"
  shows "cap_primitive n x \<le> cap_primitive n y"
proof (rule DERIV_nonneg_imp_nondecreasing [OF assms(2)])
  fix z :: real
  assume "x \<le> z" "z \<le> y"
  then have "0 \<le> z" "z \<le> 1"
    using assms by simp_all
  then have "z * z \<le> 1 * 1"
    by (intro mult_mono) simp_all
  then have "0 \<le> 1 - z\<^sup>2"
    by (simp add: power2_eq_square)
  then have "0 \<le> (1 - z\<^sup>2) ^ n"
    by (rule zero_le_power)
  then show "\<exists>d. (cap_primitive n has_real_derivative d) (at z) \<and> 0 \<le> d"
    using cap_primitive_deriv [of n z] by blast
qed

lemma unit_map_deriv:
  "((\<lambda>t. t / sqrt (1 + t\<^sup>2)) has_real_derivative 1 / ((1 + t\<^sup>2) * sqrt (1 + t\<^sup>2))) (at t)"
proof -
  let ?w = "1 + t\<^sup>2"
  have w: "0 < ?w"
    by (simp add: add_pos_nonneg)
  then have s: "0 < sqrt ?w"
    by simp
  have base: "((\<lambda>t. 1 + t\<^sup>2) has_real_derivative 2 * t) (at t)"
    by (auto intro!: derivative_eq_intros)
  have "(sqrt has_real_derivative inverse (sqrt ?w) / 2) (at ?w)"
    using w by (rule DERIV_real_sqrt)
  then have "((\<lambda>t. sqrt (1 + t\<^sup>2)) has_real_derivative inverse (sqrt ?w) / 2 * (2 * t)) (at t)"
    using base by (rule DERIV_chain2)
  then have rt: "((\<lambda>t. sqrt (1 + t\<^sup>2)) has_real_derivative 2 * t * (inverse (sqrt ?w) / 2)) (at t)"
    by (simp only: mult.commute)
  have "sqrt ?w \<noteq> 0"
    using s by simp
  then have "((\<lambda>t. t / sqrt (1 + t\<^sup>2)) has_real_derivative
      (1 * sqrt ?w - t * (2 * t * (inverse (sqrt ?w) / 2))) / (sqrt ?w * sqrt ?w)) (at t)"
    by (rule DERIV_divide [OF DERIV_ident rt])
  moreover have "(1 * sqrt ?w - t * (2 * t * (inverse (sqrt ?w) / 2))) / (sqrt ?w * sqrt ?w)
      = 1 / (?w * sqrt ?w)"
  proof -
    have ss: "sqrt ?w * sqrt ?w = ?w"
      using w by simp
    have "1 * sqrt ?w - t * (2 * t * (inverse (sqrt ?w) / 2)) = (sqrt ?w * sqrt ?w - t * t) / sqrt ?w"
      using s by (simp add: field_simps)
    also have "\<dots> = 1 / sqrt ?w"
      unfolding ss by (simp add: power2_eq_square)
    finally have "(1 * sqrt ?w - t * (2 * t * (inverse (sqrt ?w) / 2))) / (sqrt ?w * sqrt ?w)
        = 1 / sqrt ?w / ?w"
      by (simp only: ss)
    then show ?thesis
      by (simp add: mult.commute)
  qed
  ultimately show ?thesis
    by simp
qed

lemma unit_map_range:
  "0 \<le> t \<Longrightarrow> 0 \<le> t / sqrt (1 + t\<^sup>2) \<and> t / sqrt (1 + t\<^sup>2) \<le> 1"
proof -
  assume t: "0 \<le> t"
  have "t\<^sup>2 \<le> 1 + t\<^sup>2"
    by simp
  then have "sqrt (t\<^sup>2) \<le> sqrt (1 + t\<^sup>2)"
    by (simp only: real_sqrt_le_iff)
  then have "t \<le> sqrt (1 + t\<^sup>2)"
    using t by simp
  moreover have "0 < sqrt (1 + t\<^sup>2)"
    by (simp add: add_pos_nonneg)
  ultimately show ?thesis
    using t by (simp add: field_simps)
qed

lemma unit_map_square: "1 - (t / sqrt (1 + t\<^sup>2))\<^sup>2 = 1 / (1 + t\<^sup>2)"
proof -
  have w: "0 < 1 + t\<^sup>2"
    by (simp add: add_pos_nonneg)
  then have "(t / sqrt (1 + t\<^sup>2))\<^sup>2 = t\<^sup>2 / (1 + t\<^sup>2)"
    by (simp add: power_divide)
  then show ?thesis
    using w by (simp add: field_simps)
qed

lemma cauchy_primitive_below_cap:
  assumes "0 \<le> t"
  shows "cauchy_primitive (Suc n) t \<le> cap_primitive n (t / sqrt (1 + t\<^sup>2))"
proof -
  let ?D = "\<lambda>t. cap_primitive n (t / sqrt (1 + t\<^sup>2)) - cauchy_primitive (Suc n) t"
  have "?D 0 \<le> ?D t"
  proof (rule DERIV_nonneg_imp_nondecreasing [OF assms])
    fix z :: real
    let ?w = "1 + z\<^sup>2"
    have w: "1 \<le> ?w"
      by simp
    have w0: "0 < ?w"
      by (simp add: add_pos_nonneg)
    have "((\<lambda>t. cap_primitive n (t / sqrt (1 + t\<^sup>2))) has_real_derivative
        (1 - (z / sqrt ?w)\<^sup>2) ^ n * (1 / (?w * sqrt ?w))) (at z)"
      by (rule DERIV_chain2 [OF cap_primitive_deriv unit_map_deriv])
    then have q: "((\<lambda>t. cap_primitive n (t / sqrt (1 + t\<^sup>2))) has_real_derivative
        (1 / ?w) ^ n * (1 / (?w * sqrt ?w))) (at z)"
      by (simp only: unit_map_square)
    have d: "(?D has_real_derivative
        (1 / ?w) ^ n * (1 / (?w * sqrt ?w)) - 1 / ?w ^ Suc (Suc n)) (at z)"
      by (rule DERIV_diff [OF q cauchy_primitive_deriv])
    have "1 \<le> sqrt ?w"
      using w by (rule real_sqrt_ge_one)
    then have "sqrt ?w * 1 \<le> sqrt ?w * sqrt ?w"
      by (intro mult_left_mono) simp_all
    moreover have "sqrt ?w * sqrt ?w = ?w"
      using w0 by simp
    ultimately have "sqrt ?w \<le> ?w"
      by simp
    then have "?w * sqrt ?w \<le> ?w * ?w"
      using w0 by (intro mult_left_mono) simp_all
    moreover have "0 < ?w * sqrt ?w"
      using w0 by simp
    ultimately have "1 / (?w * ?w) \<le> 1 / (?w * sqrt ?w)"
      by (intro divide_left_mono) simp_all
    then have "(1 / ?w) ^ n * (1 / (?w * ?w)) \<le> (1 / ?w) ^ n * (1 / (?w * sqrt ?w))"
      using w0 by (intro mult_left_mono) simp_all
    moreover have "(1 / ?w) ^ n * (1 / (?w * ?w)) = 1 / ?w ^ Suc (Suc n)"
      by (simp add: power_divide)
    ultimately have "0 \<le> (1 / ?w) ^ n * (1 / (?w * sqrt ?w)) - 1 / ?w ^ Suc (Suc n)"
      by simp
    then show "\<exists>d. (?D has_real_derivative d) (at z) \<and> 0 \<le> d"
      using d by blast
  qed
  then show ?thesis
    by (simp add: cauchy_primitive_zero cap_primitive_zero)
qed

lemma cauchy_mass_le_cap_mass: "cauchy_mass (Suc n) \<le> cap_mass n"
proof (rule tendsto_upperbound [OF cauchy_primitive_tendsto])
  show "eventually (\<lambda>t. cauchy_primitive (Suc n) t \<le> cap_mass n) at_top"
    unfolding eventually_at_top_linorder
  proof (intro exI [of _ 0] allI impI)
    fix t :: real
    assume t: "0 \<le> t"
    have "cauchy_primitive (Suc n) t \<le> cap_primitive n (t / sqrt (1 + t\<^sup>2))"
      by (rule cauchy_primitive_below_cap [OF t])
    also have "\<dots> \<le> cap_primitive n 1"
      using unit_map_range [OF t] by (intro cap_primitive_mono_unit) simp_all
    finally show "cauchy_primitive (Suc n) t \<le> cap_mass n"
      by (simp only: cap_primitive_one)
  qed
qed simp

lemma gauss_primitive_deriv:
  "((\<lambda>x. sqrt (2 * pi) * density_primitive x) has_real_derivative exp (- x\<^sup>2 / 2)) (at x)"
proof -
  have "((\<lambda>x. sqrt (2 * pi) * density_primitive x) has_real_derivative
      sqrt (2 * pi) * std_normal_density x) (at x)"
    by (rule DERIV_cmult [OF density_primitive_deriv])
  moreover have "sqrt (2 * pi) * std_normal_density x = exp (- x\<^sup>2 / 2)"
    unfolding std_normal_density_def by (rule mult_div_cancel) simp
  ultimately show ?thesis
    by simp
qed

lemma scaled_deriv:
  assumes "0 < a" and "\<And>z. (f has_real_derivative f' z) (at z)"
  shows "((\<lambda>x. a * f (x / a)) has_real_derivative f' (x / a)) (at x)"
proof -
  have "((\<lambda>x. x / a) has_real_derivative 1 / a) (at x)"
    by (rule DERIV_cdivide [OF DERIV_ident])
  then have "((\<lambda>x. f (x / a)) has_real_derivative f' (x / a) * (1 / a)) (at x)"
    by (rule DERIV_chain2 [OF assms(2)])
  then have "((\<lambda>x. a * f (x / a)) has_real_derivative a * (f' (x / a) * (1 / a))) (at x)"
    by (rule DERIV_cmult)
  moreover have "a * (f' (x / a) * (1 / a)) = f' (x / a)"
    using assms(1) by simp
  ultimately show ?thesis
    by simp
qed

lemma gauss_primitive_upper:
  assumes "0 \<le> x"
  shows "sqrt (2 * pi) * density_primitive x \<le> sqrt (2 * real m + 2) * cauchy_mass m"
proof -
  let ?a = "sqrt (2 * real m + 2)"
  let ?E = "\<lambda>x. ?a * cauchy_primitive m (x / ?a) - sqrt (2 * pi) * density_primitive x"
  have a: "0 < ?a"
    by (simp add: add_nonneg_pos)
  have aa: "?a * ?a = 2 * real m + 2"
    by simp
  have "?E 0 \<le> ?E x"
  proof (rule DERIV_nonneg_imp_nondecreasing [OF assms])
    fix z :: real
    let ?y = "(z / ?a)\<^sup>2"
    have d: "(?E has_real_derivative 1 / (1 + ?y) ^ Suc m - exp (- z\<^sup>2 / 2)) (at z)"
      by (rule DERIV_diff [OF scaled_deriv [OF a cauchy_primitive_deriv] gauss_primitive_deriv])
    have y: "real (Suc m) * ?y = z\<^sup>2 / 2"
    proof -
      have "?y = z\<^sup>2 / (2 * real m + 2)"
        by (simp add: power_divide)
      then show ?thesis
        by (simp add: field_simps)
    qed
    have "1 + ?y \<le> exp ?y"
      by (rule exp_ge_add_one_self)
    then have "(1 + ?y) ^ Suc m \<le> exp ?y ^ Suc m"
      by (rule power_mono) (simp add: add_nonneg_nonneg)
    also have "\<dots> = exp (z\<^sup>2 / 2)"
      by (simp only: exp_of_nat_mult [symmetric] y)
    finally have "1 / exp (z\<^sup>2 / 2) \<le> 1 / (1 + ?y) ^ Suc m"
      by (intro divide_left_mono mult_pos_pos one_plus_square_power_pos) simp_all
    then have "exp (- z\<^sup>2 / 2) \<le> 1 / (1 + ?y) ^ Suc m"
      by (simp add: exp_minus inverse_eq_divide)
    then show "\<exists>d. (?E has_real_derivative d) (at z) \<and> 0 \<le> d"
      using d by (intro exI [of _ "1 / (1 + ?y) ^ Suc m - exp (- z\<^sup>2 / 2)"]) simp
  qed
  then have "sqrt (2 * pi) * density_primitive x \<le> ?a * cauchy_primitive m (x / ?a)"
    by (simp add: cauchy_primitive_zero density_primitive_zero)
  also have "\<dots> \<le> ?a * cauchy_mass m"
    using a by (intro mult_left_mono cauchy_primitive_le) simp
  finally show ?thesis .
qed

lemma gauss_primitive_lower:
  assumes "0 < n"
  shows "sqrt (2 * real n) * cap_mass n \<le> sqrt (2 * pi) * density_primitive (sqrt (2 * real n))"
proof -
  let ?a = "sqrt (2 * real n)"
  let ?E = "\<lambda>x. sqrt (2 * pi) * density_primitive x - ?a * cap_primitive n (x / ?a)"
  have a: "0 < ?a"
    using assms by simp
  have a0: "0 \<le> ?a"
    by simp
  have "?E 0 \<le> ?E ?a"
  proof (rule DERIV_nonneg_imp_nondecreasing [OF a0])
    fix z :: real
    assume z: "0 \<le> z" "z \<le> ?a"
    let ?y = "(z / ?a)\<^sup>2"
    have d: "(?E has_real_derivative exp (- z\<^sup>2 / 2) - (1 - ?y) ^ n) (at z)"
      by (rule DERIV_diff [OF gauss_primitive_deriv scaled_deriv [OF a cap_primitive_deriv]])
    have y: "real n * ?y = z\<^sup>2 / 2"
    proof -
      have "?y = z\<^sup>2 / (2 * real n)"
        by (simp add: power_divide)
      then show ?thesis
        using assms by (simp add: field_simps)
    qed
    have "z / ?a \<le> 1"
      using z(2) a by simp
    moreover have "0 \<le> z / ?a"
      using z(1) a by simp
    ultimately have "(z / ?a) * (z / ?a) \<le> 1 * 1"
      by (intro mult_mono) simp_all
    then have y1: "0 \<le> 1 - ?y"
      by (simp add: power2_eq_square)
    have "1 + - ?y \<le> exp (- ?y)"
      by (rule exp_ge_add_one_self)
    then have "1 - ?y \<le> exp (- ?y)"
      by simp
    then have "(1 - ?y) ^ n \<le> exp (- ?y) ^ n"
      using y1 by (rule power_mono)
    also have "\<dots> = exp (real n * - ?y)"
      by (simp only: exp_of_nat_mult)
    also have "real n * - ?y = - z\<^sup>2 / 2"
      using y by simp
    finally have "0 \<le> exp (- z\<^sup>2 / 2) - (1 - ?y) ^ n"
      by simp
    then show "\<exists>d. (?E has_real_derivative d) (at z) \<and> 0 \<le> d"
      using d by blast
  qed
  moreover have "?a / ?a = 1"
    using a by simp
  ultimately show ?thesis
    by (simp add: cap_primitive_zero cap_primitive_one density_primitive_zero)
qed

lemma density_primitive_odd: "density_primitive (- x) = - density_primitive x"
  by (simp add: density_primitive_def)

lemma cauchy_mass_square_upper: "cauchy_mass m * cauchy_mass m \<le> (2 * real m + 2) / (2 * real m + 1) * (pi / (2 * (2 * real m + 1)))"
proof -
  have nz: "2 * real m + 1 \<noteq> 0" "2 * real m + 2 \<noteq> 0"
    by (simp_all add: add_nonneg_eq_0_iff)
  have pos: "0 \<le> (2 * real m + 2) / (2 * real m + 1)"
    by (simp add: add_nonneg_nonneg)
  have "cauchy_mass m = (2 * real m + 2) / (2 * real m + 1) * cauchy_mass (Suc m)"
    using nz by simp
  also have "\<dots> \<le> (2 * real m + 2) / (2 * real m + 1) * cap_mass m"
    using pos cauchy_mass_le_cap_mass by (rule mult_left_mono [rotated])
  finally have "cauchy_mass m * cauchy_mass m \<le> ((2 * real m + 2) / (2 * real m + 1) * cap_mass m) * cauchy_mass m"
    using cauchy_mass_pos [of m] by (intro mult_right_mono) simp_all
  also have "\<dots> = (2 * real m + 2) / (2 * real m + 1) * (cap_mass m * cauchy_mass m)"
    by (simp only: mult.assoc)
  finally show ?thesis
    by (simp only: cap_cauchy_mass_product)
qed

lemma cap_mass_square_lower: "pi / (2 * (2 * real n + 2)) \<le> cap_mass n * cap_mass n"
proof -
  have nz: "2 * real n + 1 \<noteq> 0" "2 * real n + 2 \<noteq> 0"
    by (simp_all add: add_nonneg_eq_0_iff)
  have "cap_mass n * cauchy_mass (Suc n) = (2 * real n + 1) / (2 * real n + 2) * (cap_mass n * cauchy_mass n)"
    by simp
  also have "\<dots> = pi / (2 * (2 * real n + 2))"
    unfolding cap_cauchy_mass_product using nz(1) by (rule frac_cancel2)
  finally have "pi / (2 * (2 * real n + 2)) = cap_mass n * cauchy_mass (Suc n)" ..
  also have "\<dots> \<le> cap_mass n * cap_mass n"
    using cap_mass_pos [of n] cauchy_mass_le_cap_mass [of n] by (intro mult_left_mono) simp_all
  finally show ?thesis .
qed

lemma square_mono: "0 \<le> a \<Longrightarrow> a \<le> b \<Longrightarrow> a * a \<le> b * (b::real)"
  by (rule mult_mono) simp_all

lemma upper_algebra:
  fixes a d p :: real
  assumes "d \<noteq> 0"
  shows "a * (a / d * (p / (2 * d))) = 2 * p * ((a / (2 * d)) * (a / (2 * d)))"
  using assms by (simp add: field_simps)

lemma lower_algebra:
  fixes r p :: real
  assumes "0 \<le> r"
  shows "2 * r * (p / (2 * (2 * r + 2))) = 2 * p * (1 / 4 - 1 / (4 * (r + 1)))"
proof -
  have "r + 1 \<noteq> 0" "2 * r + 2 \<noteq> 0"
    using assms by simp_all
  then show ?thesis
    by (simp add: field_simps)
qed

lemma cancel_two_pi: "2 * pi * a \<le> 2 * pi * b \<Longrightarrow> a \<le> b"
  by simp

lemma density_primitive_le_half: "density_primitive x \<le> 1 / 2"
proof (cases "0 \<le> x")
  case False
  then have "density_primitive x \<le> density_primitive 0"
    by (intro density_primitive_mono) simp
  then show ?thesis
    by (simp add: density_primitive_zero)
next
  case True
  let ?v = "density_primitive x"
  have v: "0 \<le> ?v"
    using density_primitive_mono [OF True] by (simp add: density_primitive_zero)
  have bound: "?v \<le> 1 / 2 + 1 / (2 * (2 * real m + 1))" for m
  proof -
    let ?q = "(2 * real m + 2) / (2 * (2 * real m + 1))"
    have q: "0 \<le> ?q"
      by (simp add: add_nonneg_nonneg)
    have p1: "0 < 2 * real m + 1"
      by (simp add: add_nonneg_pos)
    have "0 \<le> sqrt (2 * pi) * ?v"
      using v by simp
    then have "(sqrt (2 * pi) * ?v) * (sqrt (2 * pi) * ?v)
        \<le> (sqrt (2 * real m + 2) * cauchy_mass m) * (sqrt (2 * real m + 2) * cauchy_mass m)"
      using gauss_primitive_upper [OF True, of m] by (rule square_mono)
    also have "\<dots> = (2 * real m + 2) * (cauchy_mass m * cauchy_mass m)"
      by (simp add: mult_ac)
    also have "\<dots> \<le> (2 * real m + 2)
        * ((2 * real m + 2) / (2 * real m + 1) * (pi / (2 * (2 * real m + 1))))"
      by (intro mult_left_mono cauchy_mass_square_upper) simp
    also have "\<dots> = 2 * pi * (?q * ?q)"
      using p1 by (intro upper_algebra) simp
    finally have "2 * pi * (?v * ?v) \<le> 2 * pi * (?q * ?q)"
      by (simp add: mult_ac)
    then have "?v * ?v \<le> ?q * ?q"
      by (rule cancel_two_pi)
    then have "?v\<^sup>2 \<le> ?q\<^sup>2"
      by (simp only: power2_eq_square)
    then have "?v \<le> ?q"
      using q by (rule power2_le_imp_le)
    also have "?q = 1 / 2 + 1 / (2 * (2 * real m + 1))"
      using p1 by (simp add: field_simps)
    finally show ?thesis .
  qed
  show ?thesis
  proof (rule ccontr)
    assume "\<not> ?v \<le> 1 / 2"
    then have "0 < ?v - 1 / 2"
      by simp
    then obtain m where m: "inverse (real (Suc m)) < ?v - 1 / 2"
      using reals_Archimedean by blast
    have "1 / (2 * (2 * real m + 1)) \<le> inverse (real (Suc m))"
      by (simp add: field_simps)
    then show False
      using bound [of m] m by simp
  qed
qed

lemma density_primitive_bound_ge_half:
  assumes b: "\<And>x. density_primitive x \<le> b"
  shows "1 / 2 \<le> b"
proof (rule ccontr)
  assume "\<not> 1 / 2 \<le> b"
  then have small: "b < 1 / 2"
    by simp
  have b0: "0 \<le> b"
    using b [of 0] by (simp add: density_primitive_zero)
  have "b * b \<le> (1 / 2) * b"
    using small b0 by (intro mult_right_mono) simp_all
  also have "\<dots> < (1 / 2) * (1 / 2)"
    using small by (intro mult_strict_left_mono) simp_all
  finally have "0 < 1 / 4 - b * b"
    by simp
  then obtain k where k: "inverse (real (Suc k)) < 1 / 4 - b * b"
    using reals_Archimedean by blast
  define n where "n = Suc k"
  have n: "0 < n"
    by (simp add: n_def)
  have "0 \<le> sqrt (2 * real n) * cap_mass n"
    using cap_mass_pos [of n] by (intro mult_nonneg_nonneg) simp_all
  moreover have "sqrt (2 * real n) * cap_mass n \<le> sqrt (2 * pi) * b"
  proof -
    have "sqrt (2 * pi) * density_primitive (sqrt (2 * real n)) \<le> sqrt (2 * pi) * b"
      by (intro mult_left_mono b) simp
    then show ?thesis
      using gauss_primitive_lower [OF n] by (rule order_trans [rotated])
  qed
  ultimately have "(sqrt (2 * real n) * cap_mass n) * (sqrt (2 * real n) * cap_mass n)
      \<le> (sqrt (2 * pi) * b) * (sqrt (2 * pi) * b)"
    by (rule square_mono)
  moreover have "(sqrt (2 * real n) * cap_mass n) * (sqrt (2 * real n) * cap_mass n)
      = 2 * real n * (cap_mass n * cap_mass n)"
    by (simp add: mult_ac)
  moreover have "(sqrt (2 * pi) * b) * (sqrt (2 * pi) * b) = 2 * pi * (b * b)"
    by (simp add: mult_ac)
  moreover have "2 * real n * (pi / (2 * (2 * real n + 2))) \<le> 2 * real n * (cap_mass n * cap_mass n)"
    by (intro mult_left_mono cap_mass_square_lower) simp
  ultimately have "2 * real n * (pi / (2 * (2 * real n + 2))) \<le> 2 * pi * (b * b)"
    by (simp only:)
  moreover have "2 * real n * (pi / (2 * (2 * real n + 2)))
      = 2 * pi * (1 / 4 - 1 / (4 * (real n + 1)))"
    by (rule lower_algebra) simp
  ultimately have "2 * pi * (1 / 4 - 1 / (4 * (real n + 1))) \<le> 2 * pi * (b * b)"
    by (simp only:)
  then have "1 / 4 - 1 / (4 * (real n + 1)) \<le> b * b"
    by (rule cancel_two_pi)
  moreover have "1 / (4 * (real n + 1)) \<le> inverse (real (Suc k))"
    by (simp add: n_def field_simps)
  ultimately show False
    using k by simp
qed

lemma density_primitive_Inf: "Inf (range density_primitive) = - (1 / 2)"
proof (rule cInf_eq_non_empty)
  show "range density_primitive \<noteq> {}"
    by simp
next
  fix v
  assume "v \<in> range density_primitive"
  then obtain x where "v = density_primitive x"
    by blast
  then have "- v = density_primitive (- x)"
    by (simp add: density_primitive_odd)
  then have "- v \<le> 1 / 2"
    by (simp only: density_primitive_le_half)
  then show "- (1 / 2) \<le> v"
    by simp
next
  fix y
  assume y: "\<And>v. v \<in> range density_primitive \<Longrightarrow> y \<le> v"
  have "density_primitive x \<le> - y" for x
  proof -
    have "y \<le> density_primitive (- x)"
      by (rule y) simp
    then show ?thesis
      by (simp add: density_primitive_odd)
  qed
  then have "1 / 2 \<le> - y"
    by (rule density_primitive_bound_ge_half)
  then show "y \<le> - (1 / 2)"
    by simp
qed

subsection \<open>The distribution function\<close>

lemma std_normal_cdf_deriv:
  "(std_normal_cdf has_real_derivative std_normal_density x) (at x)"
proof -
  have "((\<lambda>x. 1 / 2 + density_primitive x) has_real_derivative
      0 + std_normal_density x) (at x)"
    by (rule derivative_intros density_primitive_deriv)+
  then show ?thesis
    unfolding std_normal_cdf_def [abs_def] by simp
qed

lemma std_normal_cdf_symmetric: "std_normal_cdf (- x) = 1 - std_normal_cdf x"
  by (simp add: std_normal_cdf_def density_primitive_odd)

lemma std_normal_cdf_le_one: "std_normal_cdf x \<le> 1"
  using density_primitive_le_half [of x] by (simp add: std_normal_cdf_def)

lemma std_normal_cdf_nonneg: "0 \<le> std_normal_cdf x"
  using std_normal_cdf_le_one [of "- x"] by (simp add: std_normal_cdf_symmetric)

lemma std_normal_cdf_mono: "x \<le> y \<Longrightarrow> std_normal_cdf x \<le> std_normal_cdf y"
  by (simp add: std_normal_cdf_def density_primitive_mono)

lemma density_primitive_bdd: "bdd_below (range density_primitive)"
proof (rule bdd_belowI [of _ "- (1 / 2)"])
  fix v
  assume "v \<in> range density_primitive"
  then obtain x where "v = density_primitive x"
    by blast
  then show "- (1 / 2) \<le> v"
    using std_normal_cdf_nonneg [of x] by (simp add: std_normal_cdf_def)
qed

lemma std_normal_cdf_at_bot: "(std_normal_cdf \<longlongrightarrow> 0) at_bot"
proof (rule tendstoI)
  fix e :: real
  assume "0 < e"
  let ?L = "Inf (range density_primitive)"
  have "?L < ?L + e"
    using \<open>0 < e\<close> by simp
  then have "\<exists>v\<in>range density_primitive. v < ?L + e"
    by (subst (asm) cInf_less_iff [OF _ density_primitive_bdd]) auto
  then obtain x0 where "density_primitive x0 < ?L + e"
    by auto
  then have x0: "std_normal_cdf x0 < e"
    by (simp add: std_normal_cdf_def density_primitive_Inf)
  have "dist (std_normal_cdf x) 0 < e" if "x \<le> x0" for x
  proof -
    have "std_normal_cdf x \<le> std_normal_cdf x0"
      using that by (rule std_normal_cdf_mono)
    then have "std_normal_cdf x < e"
      using x0 by simp
    then show ?thesis
      using std_normal_cdf_nonneg [of x] by (simp add: dist_real_def)
  qed
  then show "eventually (\<lambda>x. dist (std_normal_cdf x) 0 < e) at_bot"
    unfolding eventually_at_bot_linorder by blast
qed

lemma std_normal_cdf_at_top: "(std_normal_cdf \<longlongrightarrow> 1) at_top"
proof -
  have "((\<lambda>x. std_normal_cdf (- x)) \<longlongrightarrow> 0) at_top"
    by (rule filterlim_compose [OF std_normal_cdf_at_bot filterlim_uminus_at_bot_at_top])
  then have "((\<lambda>x. 1 - std_normal_cdf (- x)) \<longlongrightarrow> 1 - 0) at_top"
    by (intro tendsto_intros)
  then show ?thesis
    by (simp add: std_normal_cdf_symmetric fun_eq_iff [symmetric])
qed

subsection \<open>The tails of the distribution function\<close>

lemma std_normal_cdf_small:
  assumes "0 < e"
  shows "\<exists>z\<le>b. std_normal_cdf z < e"
proof -
  have "eventually (\<lambda>z. dist (std_normal_cdf z) 0 < e) at_bot"
    using std_normal_cdf_at_bot assms by (rule tendstoD)
  then obtain N where N: "\<forall>z\<le>N. dist (std_normal_cdf z) 0 < e"
    unfolding eventually_at_bot_linorder by blast
  then have "dist (std_normal_cdf (min N b)) 0 < e"
    by simp
  then have "std_normal_cdf (min N b) < e"
    by (simp add: dist_real_def)
  then show ?thesis
    by (intro exI [of _ "min N b"]) simp
qed


lemma density_le_exp: "std_normal_density x \<le> exp (- x\<^sup>2 / 2)"
proof -
  have "1 \<le> sqrt (2 * pi)"
    using pi_ge_two by (intro real_sqrt_ge_one) simp
  then have "exp (- x\<^sup>2 / 2) / sqrt (2 * pi) \<le> exp (- x\<^sup>2 / 2) / 1"
    by (intro divide_left_mono) simp_all
  then show ?thesis
    by (simp add: std_normal_density_def)
qed

text \<open>The tail of the distribution function: below \<open>-1\<close> it is under \<open>exp (- x\<^sup>2 / 2)\<close>.\<close>

lemma cdf_tail:
  assumes "x \<le> - 1"
  shows "std_normal_cdf x \<le> exp (- x\<^sup>2 / 2)"
proof (rule ccontr)
  let ?g = "\<lambda>t. exp (- t\<^sup>2 / 2) - std_normal_cdf t"
  assume "\<not> std_normal_cdf x \<le> exp (- x\<^sup>2 / 2)"
  then have neg: "0 < - ?g x"
    by simp
  have mono: "?g t \<le> ?g x" if "t \<le> x" for t
  proof (rule DERIV_nonneg_imp_nondecreasing [OF that])
    fix z :: real
    assume "t \<le> z" "z \<le> x"
    then have z: "z \<le> - 1"
      using assms by simp
    have "((\<lambda>t. exp (- t\<^sup>2 / 2)) has_real_derivative exp (- z\<^sup>2 / 2) * (- z)) (at z)"
      by (auto intro!: derivative_eq_intros)
    then have d: "(?g has_real_derivative exp (- z\<^sup>2 / 2) * (- z) - std_normal_density z) (at z)"
      by (rule DERIV_diff [OF _ std_normal_cdf_deriv])
    have "exp (- z\<^sup>2 / 2) * 1 \<le> exp (- z\<^sup>2 / 2) * (- z)"
      using z by (intro mult_left_mono) simp_all
    then have "0 \<le> exp (- z\<^sup>2 / 2) * (- z) - std_normal_density z"
      using density_le_exp [of z] by simp
    then show "\<exists>d. (?g has_real_derivative d) (at z) \<and> 0 \<le> d"
      using d by blast
  qed
  obtain t where t: "t \<le> x" "std_normal_cdf t < - ?g x"
    using std_normal_cdf_small [OF neg, of x] by blast
  have "?g t \<le> ?g x"
    by (rule mono [OF t(1)])
  moreover have "0 \<le> exp (- t\<^sup>2 / 2)"
    by (rule exp_ge_zero)
  ultimately show False
    using t(2) by linarith
qed

lemma exp_ge_two_power: "2 ^ n \<le> exp (real n)"
proof -
  have "(2::real) \<le> exp 1"
    using exp_ge_add_one_self [of 1] by simp
  then have "(2::real) ^ n \<le> exp 1 ^ n"
    by (rule power_mono) simp
  then show ?thesis
    by (simp add: exp_of_nat_mult [symmetric])
qed

lemma exp_below_underflow:
  assumes "1075 \<le> y"
  shows "exp (- y) \<le> underflow_bound"
proof -
  have "2 ^ 1075 \<le> exp (real 1075)"
    by (rule exp_ge_two_power)
  also have "\<dots> \<le> exp y"
    using assms by simp
  finally have "1 / exp y \<le> 1 / 2 ^ 1075"
    by (intro divide_left_mono) simp_all
  then show ?thesis
    by (simp add: underflow_bound_def exp_minus inverse_eq_divide)
qed

lemma exp_above_overflow:
  assumes "1024 \<le> y"
  shows "overflow_bound \<le> exp y"
proof -
  have "overflow_bound \<le> 2 ^ 1024"
    by (simp add: overflow_bound_def)
  also have "\<dots> \<le> exp (real 1024)"
    by (rule exp_ge_two_power)
  also have "\<dots> \<le> exp y"
    using assms by simp
  finally show ?thesis .
qed

lemma far_square: "47 \<le> \<bar>x\<bar> \<Longrightarrow> 1075 \<le> x\<^sup>2 / 2" for x :: real
proof -
  assume a: "47 \<le> \<bar>x\<bar>"
  then have "47 * 47 \<le> \<bar>x\<bar> * \<bar>x\<bar>"
    by (intro mult_mono) simp_all
  then show ?thesis
    by (simp add: power2_eq_square)
qed

lemma cdf_far_left:
  assumes "x \<le> - 47"
  shows "std_normal_cdf x \<le> underflow_bound"
proof -
  have "std_normal_cdf x \<le> exp (- x\<^sup>2 / 2)"
    using assms by (intro cdf_tail) simp
  also have "\<dots> = exp (- (x\<^sup>2 / 2))"
    by simp
  also have "\<dots> \<le> underflow_bound"
    using assms by (intro exp_below_underflow far_square) simp
  finally show ?thesis .
qed

lemma density_far:
  assumes "47 \<le> \<bar>x\<bar>"
  shows "std_normal_density x \<le> underflow_bound"
proof -
  have "std_normal_density x \<le> exp (- (x\<^sup>2 / 2))"
    using density_le_exp [of x] by simp
  also have "\<dots> \<le> underflow_bound"
    using assms by (intro exp_below_underflow far_square)
  finally show ?thesis .
qed

lemma norm_cdf_far_left: "x \<le> - 47 \<Longrightarrow> norm_cdf (Fin x) = Fin 0"
  by (simp add: cdf_far_left)

lemma norm_cdf_far_right:
  assumes "47 \<le> x"
  shows "norm_cdf (Fin x) = Fin 1"
proof -
  have u: "std_normal_cdf (- x) \<le> underflow_bound"
    using assms by (intro cdf_far_left) simp
  have "underflow_bound \<le> 1 / 2 ^ 54"
    by (simp add: underflow_bound_def)
  then have a: "1 - 1 / 2 ^ 54 \<le> std_normal_cdf x"
    using u by (simp add: std_normal_cdf_symmetric)
  have "underflow_bound < 1 - 1 / 2 ^ 54"
    by (simp add: underflow_bound_def)
  then have "\<not> std_normal_cdf x \<le> underflow_bound"
    using a by simp
  then show ?thesis
    using a by simp
qed

lemma norm_pdf_far: "47 \<le> \<bar>x\<bar> \<Longrightarrow> norm_pdf (Fin x) = Fin 0"
proof -
  assume a: "47 \<le> \<bar>x\<bar>"
  have "0 < std_normal_density x"
    by (rule std_normal_density_pos)
  moreover have "std_normal_density x \<le> underflow_bound"
    by (rule density_far [OF a])
  moreover have "underflow_bound < overflow_bound"
    by (simp add: underflow_bound_def overflow_bound_def)
  ultimately show ?thesis
    by (simp add: saturate_def signed_zero_def)
qed

subsection \<open>Operations on numbers in range\<close>

lemma saturate_in_range: "in_range v \<Longrightarrow> saturate v = Fin v"
  by (auto simp: in_range_def saturate_def)

lemma bounds_pos: "0 < underflow_bound" "underflow_bound < 1 / 1000" "1000000 < overflow_bound"
  by (simp_all add: underflow_bound_def overflow_bound_def)

lemma in_range_between:
  assumes "1 / 1000 \<le> \<bar>v\<bar>" "\<bar>v\<bar> \<le> 1000000"
  shows "in_range v"
  using assms bounds_pos unfolding in_range_def by linarith

lemma in_range_nonzero: "in_range v \<Longrightarrow> v \<noteq> 0"
  using bounds_pos(1) by (auto simp: in_range_def)

lemma xmul_Fin:
  assumes "a \<noteq> 0" "b \<noteq> 0" "in_range (a * b)"
  shows "xmul (Fin a) (Fin b) = Fin (a * b)"
  using assms by (simp add: xmul_def saturate_in_range)

lemma xmul_Fin_zero: "xmul (Fin a) (Fin 0) = signed_zero (a < 0)"
  by (simp add: xmul_def)

lemma xmul_zero_Fin: "xmul (Fin 0) (Fin b) = signed_zero (b < 0)"
  by (simp add: xmul_def)

lemma xdiv_Fin:
  assumes "a \<noteq> 0" "b \<noteq> 0" "in_range (a / b)"
  shows "xdiv (Fin a) (Fin b) = Fin (a / b)"
  using assms by (simp add: xdiv_def saturate_in_range)

lemma xadd_Fin:
  assumes "in_range (a + b)"
  shows "xadd (Fin a) (Fin b) = Fin (a + b)"
  using assms in_range_nonzero [OF assms] by (auto simp: xadd_def in_range_def)

subsection \<open>The engine and the formulas of the specification\<close>

lemma bounds_order: "0 < overflow_bound" "underflow_bound < overflow_bound"
  by (simp_all add: underflow_bound_def overflow_bound_def)

lemma xsquare_eq:
  "xsquare x = (if square_overflows x then Inl OverflowError else Inr (xmul x x))"
proof (cases x)
  case (Fin a)
  show ?thesis
  proof (cases "a = 0")
    case True
    then show ?thesis
      using Fin bounds_pos(1) bounds_order(1)
      by (simp add: xsquare_def xmul_def square_overflows_def signed_zero_def)
  next
    case False
    have nn: "0 \<le> a * a"
      by simp
    then have "\<not> a * a \<le> - overflow_bound"
      using bounds_order(1) by linarith
    then show ?thesis
      using Fin False nn
      by (simp add: xsquare_def xmul_def square_overflows_def saturate_def signed_zero_def)
  qed
next
  case NZero
  then show ?thesis
    using bounds_pos(1) bounds_order(1)
    by (simp add: xsquare_def xmul_def square_overflows_def signed_zero_def)
qed (simp_all add: xsquare_def xmul_def square_overflows_def signed_inf_def)

lemma truediv_eq:
  "truediv S K = (if div_by_zero S K then Inl ZeroDivisionError else Inr (xdiv (val S) (val K)))"
  by (simp add: truediv_def div_by_zero_def val_def)

lemma d1_eq:
  "d1 S K T r sigma =
     (if div_by_zero S K then Inl ZeroDivisionError
      else if square_overflows sigma then Inl OverflowError
      else Inr (spec_d1 (val S) (val K) T r sigma))"
  by (simp add: d1_def truediv_eq xsquare_eq spec_d1_def)

lemma d2_eq:
  "d2 S K T r sigma =
     (if div_by_zero S K then Inl ZeroDivisionError
      else if square_overflows sigma then Inl OverflowError
      else Inr (spec_d2 (val S) (val K) T r sigma))"
  by (simp add: d2_def d1_eq spec_d2_def)

lemma black_scholes_eq:
  "black_scholes S K T r sigma =
     (if div_by_zero S K then Inl ZeroDivisionError
      else if square_overflows sigma then Inl OverflowError
      else Inr (spec_call (val S) (val K) T r sigma, spec_put (val S) (val K) T r sigma))"
  by (simp add: black_scholes_def d1_eq d2_eq spec_call_def spec_put_def spec_discounted_def)

lemma calculate_greeks_eq:
  "calculate_greeks S K T r sigma =
     (if div_by_zero S K then Inl ZeroDivisionError
      else if square_overflows sigma then Inl OverflowError
      else Inr (spec_delta (val S) (val K) T r sigma, spec_theta (val S) (val K) T r sigma,
                spec_vega (val S) (val K) T r sigma, spec_rho (val S) (val K) T r sigma))"
  by (simp add: calculate_greeks_def d1_eq d2_eq spec_delta_def spec_theta_def spec_vega_def
      spec_rho_def)

lemma valid_no_error:
  assumes "0 < K" "sigma * sigma < overflow_bound"
  shows "\<not> div_by_zero (k1, Fin S) (k2, Fin K)" "\<not> square_overflows (Fin sigma)"
  using assms by (simp_all add: div_by_zero_def square_overflows_def)

subsection \<open>Values at single inputs\<close>

declare norm_cdf.simps(1) [simp del] norm_pdf.simps(1) [simp del]

lemma xsub_Fin:
  assumes "b \<noteq> 0" "in_range (a - b)"
  shows "xsub (Fin a) (Fin b) = Fin (a - b)"
  using assms xadd_Fin [of a "- b"] by (simp add: xsub_def)

lemma xsub_Fin_zero:
  assumes "in_range a"
  shows "xsub (Fin a) (Fin 0) = Fin a"
  using assms in_range_nonzero [OF assms] by (auto simp: xsub_def xadd_def in_range_def)

lemma xsub_zero_zero: "xsub (Fin 0) (Fin 0) = Fin 0"
  by (simp add: xsub_def xadd_def)

lemma xmul_self_Fin:
  assumes "in_range (a * a)"
  shows "xmul (Fin a) (Fin a) = Fin (a * a)"
  using assms in_range_nonzero [OF assms] by (simp add: xmul_Fin)

lemma xdiv_zero_zero: "xdiv (Fin 0) (Fin 0) = NaN"
  by (simp add: xdiv_def)

lemma xdiv_Fin_zero: "a \<noteq> 0 \<Longrightarrow> xdiv (Fin a) (Fin 0) = signed_inf (a < 0)"
  by (simp add: xdiv_def)

lemma xdiv_zero_Fin: "b \<noteq> 0 \<Longrightarrow> xdiv (Fin 0) (Fin b) = signed_zero (b < 0)"
  by (simp add: xdiv_def)

lemma xdiv_PInf_Fin: "xdiv PInf (Fin b) = signed_inf (b < 0)"
  by (simp add: xdiv_def)

lemma nan_rules:
  "xadd NaN y = NaN" "xadd x NaN = NaN" "xsub NaN y = NaN" "xsub x NaN = NaN"
  "xmul NaN y = NaN" "xmul x NaN = NaN" "xdiv NaN y = NaN" "xdiv x NaN = NaN"
  by (simp_all add: xadd_def xsub_def xmul_def xdiv_def)

lemma inf_rules:
  "xadd PInf (Fin b) = PInf" "xadd (Fin a) PInf = PInf" "xsub PInf (Fin b) = PInf"
  "xmul PInf (Fin 0) = NaN" "xmul (Fin 0) PInf = NaN"
  "b \<noteq> 0 \<Longrightarrow> xmul PInf (Fin b) = signed_inf (b < 0)"
  "a \<noteq> 0 \<Longrightarrow> xmul (Fin a) PInf = signed_inf (a < 0)"
  by (auto simp: xadd_def xsub_def xmul_def)

lemma xadd_Fin_NZero: "in_range a \<Longrightarrow> xadd (Fin a) NZero = Fin a"
  using in_range_nonzero [of a] by (auto simp: xadd_def in_range_def)

lemma xadd_zero_zero: "xadd (Fin 0) (Fin 0) = Fin 0"
  by (simp add: xadd_def)

lemma exp_overflow: "1024 \<le> x \<Longrightarrow> saturate (exp x) = PInf"
  by (simp add: saturate_def exp_above_overflow)

lemma square_small:
  assumes "\<bar>s\<bar> \<le> 1000"
  shows "\<not> square_overflows (Fin s)"
proof -
  have "\<bar>s\<bar> * \<bar>s\<bar> \<le> 1000 * 1000"
    using assms by (intro mult_mono) simp_all
  then have "s * s \<le> 1000000"
    by (simp add: abs_mult_self_eq)
  then show ?thesis
    using bounds_pos(3) by (simp add: square_overflows_def)
qed

lemmas eval_rules =
  in_range_between xmul_Fin xmul_self_Fin xdiv_Fin xadd_Fin xsub_Fin xsub_Fin_zero xsub_zero_zero
  xmul_Fin_zero xmul_zero_Fin signed_zero_def signed_inf_def xdiv_zero_zero xdiv_Fin_zero
  xdiv_zero_Fin xdiv_PInf_Fin nan_rules inf_rules xadd_Fin_NZero exp_overflow xadd_zero_zero
  square_small div_by_zero_def
  norm_cdf_far_left norm_cdf_far_right norm_pdf_far

lemma spec_d1_t0:
  "spec_d1 (Fin 100) (Fin 100) (Fin 0) (Fin (1 / 20)) (Fin (1 / 5)) = NaN"
  by (simp add: spec_d1_def eval_rules)





lemma black_scholes_t0:
  "black_scholes (PyFloat, Fin 100) (PyFloat, Fin 100) (Fin 0) (Fin (1 / 20)) (Fin (1 / 5)) =
     Inr (NaN, NaN)"
proof -
  show ?thesis
    by (simp add: black_scholes_eq val_def spec_call_def spec_put_def spec_d2_def spec_d1_t0
        eval_rules)
qed

lemma exp_twentieth:
  "19 / 20 \<le> exp (- (1 / 20) :: real)" "exp (- (1 / 20) :: real) \<le> 20 / 21"
proof -
  show "19 / 20 \<le> exp (- (1 / 20) :: real)"
    using exp_ge_add_one_self [of "- (1 / 20) :: real"] by simp
  have "1 + 1 / 20 \<le> exp (1 / 20 :: real)"
    by (rule exp_ge_add_one_self)
  then have "1 / exp (1 / 20 :: real) \<le> 1 / (1 + 1 / 20)"
    by (intro divide_left_mono) simp_all
  then show "exp (- (1 / 20) :: real) \<le> 20 / 21"
    by (simp add: exp_minus inverse_eq_divide)
qed

lemma discount_range:
  "in_range (exp (- (1 / 20)))" "in_range (100 * exp (- (1 / 20)))"
  "in_range (100 - 100 * exp (- (1 / 20)))"
proof -
  let ?e = "exp (- (1 / 20) :: real)"
  have e: "19 / 20 \<le> ?e" "?e \<le> 20 / 21"
    by (rule exp_twentieth)+
  show "in_range ?e"
    using e by (intro in_range_between) simp_all
  show "in_range (100 * ?e)"
    using e by (intro in_range_between) simp_all
  show "in_range (100 - 100 * ?e)"
    using e by (intro in_range_between) simp_all
qed

lemma spec_discounted_ordinary:
  "spec_discounted (Fin 100) (Fin 1) (Fin (1 / 20)) = Fin (100 * exp (- (1 / 20)))"
  by (simp add: spec_discounted_def eval_rules saturate_in_range discount_range)

lemma spec_d1_sigma0:
  "spec_d1 (Fin 100) (Fin 100) (Fin 1) (Fin (1 / 20)) (Fin 0) = PInf"
  by (simp add: spec_d1_def eval_rules)

lemma black_scholes_sigma0:
  "black_scholes (PyFloat, Fin 100) (PyFloat, Fin 100) (Fin 1) (Fin (1 / 20)) (Fin 0) =
     Inr (Fin (100 - 100 * exp (- (1 / 20))), Fin 0)"
  by (simp add: black_scholes_eq val_def spec_call_def spec_put_def spec_d2_def spec_d1_sigma0
      spec_discounted_ordinary eval_rules discount_range)

lemma spec_d1_negative_spot:
  "spec_d1 (Fin (- 1)) (Fin 100) (Fin 1) (Fin (1 / 20)) (Fin (1 / 5)) = NaN"
  by (simp add: spec_d1_def eval_rules)

lemma black_scholes_negative_spot:
  "black_scholes (PyFloat, Fin (- 1)) (PyFloat, Fin 100) (Fin 1) (Fin (1 / 20)) (Fin (1 / 5)) =
     Inr (NaN, NaN)"
  by (simp add: black_scholes_eq val_def spec_call_def spec_put_def spec_d2_def
      spec_d1_negative_spot eval_rules)

lemma spec_d1_strike0:
  "spec_d1 (Fin 100) (Fin 0) (Fin 1) (Fin (1 / 20)) (Fin (1 / 5)) = PInf"
  by (simp add: spec_d1_def eval_rules)

lemma spec_discounted_strike0: "spec_discounted (Fin 0) (Fin 1) (Fin (1 / 20)) = Fin 0"
  by (simp add: spec_discounted_def eval_rules saturate_in_range discount_range)

lemma black_scholes_strike0_numpy:
  "black_scholes (PyFloat, Fin 100) (NpFloat64, Fin 0) (Fin 1) (Fin (1 / 20)) (Fin (1 / 5)) =
     Inr (Fin 100, Fin 0)"
  by (simp add: black_scholes_eq val_def spec_call_def spec_put_def spec_d2_def spec_d1_strike0
      spec_discounted_strike0 eval_rules)

lemma black_scholes_strike0_builtin:
  "black_scholes (PyFloat, Fin 100) (PyFloat, Fin 0) (Fin 1) (Fin (1 / 20)) (Fin (1 / 5)) =
     Inl ZeroDivisionError"
  by (simp add: black_scholes_eq div_by_zero_def)

subsection \<open>Signs and overflow of the discount factor\<close>

lemma saturate_pos: "0 < v \<Longrightarrow> pos_or_nan (saturate v)"
  using bounds_order(1) by (simp add: pos_or_nan_def saturate_def signed_zero_def)

lemma xmul_pos:
  assumes "pos_or_nan x" "pos_or_nan y"
  shows "pos_or_nan (xmul x y)"
proof (cases "x = NaN \<or> y = NaN")
  case True
  then show ?thesis
    by (auto simp: pos_or_nan_def xmul_def)
next
  case False
  then have s: "\<not> sign_bit x" "\<not> sign_bit y"
    using assms by (simp_all add: pos_or_nan_def)
  show ?thesis
  proof (cases "is_inf x \<or> is_inf y \<or> is_zero x \<or> is_zero y")
    case True
    then show ?thesis
      using s by (auto simp: pos_or_nan_def xmul_def signed_inf_def signed_zero_def)
  next
    case regular: False
    then obtain a b where ab: "x = Fin a" "y = Fin b"
      using False by (cases x; cases y) simp_all
    then have "0 < a * b"
      using s regular by simp
    then have "pos_or_nan (saturate (a * b))"
      by (rule saturate_pos)
    then show ?thesis
      using ab regular by (simp add: xmul_def)
  qed
qed

lemma norm_cdf_cases:
  "norm_cdf x = NaN \<or> (\<exists>p. norm_cdf x = Fin p \<and> 0 \<le> p \<and> p \<le> 1)"
proof (cases x)
  case (Fin a)
  then show ?thesis
    using std_normal_cdf_nonneg [of a] std_normal_cdf_le_one [of a]
    by (simp add: norm_cdf.simps(1))
next
  case NZero
  have "norm_cdf NZero = Fin (1 / 2) \<and> (0::real) \<le> 1 / 2 \<and> (1::real) / 2 \<le> 1"
    by simp
  then show ?thesis
    unfolding NZero by blast
qed simp_all

lemma norm_cdf_pos: "pos_or_nan (norm_cdf x)"
  using norm_cdf_cases [of x] by (auto simp: pos_or_nan_def)

lemma norm_pdf_pos: "pos_or_nan (norm_pdf x)"
proof (cases x)
  case (Fin a)
  then show ?thesis
    using saturate_pos [OF std_normal_density_pos [of a]] by (simp add: norm_pdf.simps(1))
next
  case NZero
  then show ?thesis
    using std_normal_density_pos [of 0] by (simp add: pos_or_nan_def)
qed (simp_all add: pos_or_nan_def)

lemma np_exp_pos: "pos_or_nan (np_exp x)"
proof (cases x)
  case (Fin a)
  then show ?thesis
    using saturate_pos [of "exp a"] by simp
qed (simp_all add: pos_or_nan_def)

lemma pos_or_nan_Fin: "0 < a \<Longrightarrow> pos_or_nan (Fin a)"
  by (simp add: pos_or_nan_def)

lemma pos_or_nan_ge: "pos_or_nan x \<Longrightarrow> x = NaN \<or> xle (Fin 0) x"
  by (cases x) (auto simp: pos_or_nan_def xle_def)

lemma norm_cdf_bounds: "norm_cdf x = NaN \<or> (xle (Fin 0) (norm_cdf x) \<and> xle (norm_cdf x) (Fin 1))"
  using norm_cdf_cases [of x] by (auto simp: xle_def)

lemma greeks_in_bounds:
  assumes "0 < S" "0 < K" "0 < T"
  shows "spec_delta (Fin S) (Fin K) (Fin T) r sigma = NaN \<or>
           (xle (Fin 0) (spec_delta (Fin S) (Fin K) (Fin T) r sigma) \<and>
            xle (spec_delta (Fin S) (Fin K) (Fin T) r sigma) (Fin 1))"
    and "spec_vega (Fin S) (Fin K) (Fin T) r sigma = NaN \<or>
           xle (Fin 0) (spec_vega (Fin S) (Fin K) (Fin T) r sigma)"
    and "spec_rho (Fin S) (Fin K) (Fin T) r sigma = NaN \<or>
           xle (Fin 0) (spec_rho (Fin S) (Fin K) (Fin T) r sigma)"
proof -
  show "spec_delta (Fin S) (Fin K) (Fin T) r sigma = NaN \<or>
           (xle (Fin 0) (spec_delta (Fin S) (Fin K) (Fin T) r sigma) \<and>
            xle (spec_delta (Fin S) (Fin K) (Fin T) r sigma) (Fin 1))"
    unfolding spec_delta_def by (rule norm_cdf_bounds)
  have root: "pos_or_nan (np_sqrt (Fin T))"
    using assms by (simp add: pos_or_nan_def)
  have "pos_or_nan (spec_vega (Fin S) (Fin K) (Fin T) r sigma)"
    unfolding spec_vega_def
    by (intro xmul_pos pos_or_nan_Fin norm_pdf_pos root assms)
  then show "spec_vega (Fin S) (Fin K) (Fin T) r sigma = NaN \<or>
           xle (Fin 0) (spec_vega (Fin S) (Fin K) (Fin T) r sigma)"
    by (rule pos_or_nan_ge)
  have "pos_or_nan (spec_rho (Fin S) (Fin K) (Fin T) r sigma)"
    unfolding spec_rho_def
    by (intro xmul_pos pos_or_nan_Fin norm_cdf_pos np_exp_pos assms)
  then show "spec_rho (Fin S) (Fin K) (Fin T) r sigma = NaN \<or>
           xle (Fin 0) (spec_rho (Fin S) (Fin K) (Fin T) r sigma)"
    by (rule pos_or_nan_ge)
qed








subsection \<open>A large strike and maturity\<close>

lemma in_range_upto:
  assumes "1 / 1000 \<le> \<bar>v\<bar>" "\<bar>v\<bar> \<le> B" "B < overflow_bound"
  shows "in_range v"
  using assms bounds_pos unfolding in_range_def by linarith

lemma square_huge: "square_overflows (Fin (2 ^ 600))"
  by (simp add: square_overflows_def overflow_bound_def)

lemma far_point:
  assumes h: "94 \<le> h" "h * h < overflow_bound" "overflow_bound \<le> h * h * (h * h)"
  shows "spec_d1 (Fin (h * h)) (Fin (h * h)) (Fin (h * h)) (Fin 0) (Fin 1) = Fin (h / 2)"
    and "spec_d2 (Fin (h * h)) (Fin (h * h)) (Fin (h * h)) (Fin 0) (Fin 1) = Fin (- (h / 2))"
proof -
  have hh: "h \<le> h * h"
    using h(1) by simp
  have r: "in_range h" "in_range (h * h)" "in_range (h * h / 2)" "in_range (h / 2)"
    "in_range (- (h / 2))"
  proof -
    have p: "0 \<le> h" "94 \<le> h * h"
      using h(1) hh by linarith+
    show "in_range h"
      using h(1) hh by (intro in_range_upto [OF _ _ h(2)]) simp_all
    show "in_range (h * h)"
      using p by (intro in_range_upto [OF _ _ h(2)]) simp_all
    have "\<bar>h * h / 2\<bar> = h * h / 2" "\<bar>h / 2\<bar> = h / 2"
      using p by simp_all
    then show "in_range (h * h / 2)" "in_range (h / 2)"
      using h(1) hh p by (intro in_range_upto [OF _ _ h(2)]; linarith)+
    then show "in_range (- (h / 2))"
      by (simp add: in_range_def)
  qed
  have d: "h \<noteq> 0" "0 < h" "0 \<le> h"
    using h(1) by simp_all
  show a: "spec_d1 (Fin (h * h)) (Fin (h * h)) (Fin (h * h)) (Fin 0) (Fin 1) = Fin (h / 2)"
    using d by (simp add: spec_d1_def eval_rules r)
  show "spec_d2 (Fin (h * h)) (Fin (h * h)) (Fin (h * h)) (Fin 0) (Fin 1) = Fin (- (h / 2))"
    using d by (simp add: spec_d2_def a eval_rules r)
qed

lemma xmul_overflow:
  assumes "a \<noteq> 0" "b \<noteq> 0" "overflow_bound \<le> a * b"
  shows "xmul (Fin a) (Fin b) = PInf"
  using assms by (simp add: xmul_def saturate_def)

lemma neg_zero_rules:
  "xneg (Fin 0) = NZero" "xmul NZero (Fin b) = signed_zero (\<not> b < 0)"
  "xsub NZero (Fin 0) = NZero"
  by (simp_all add: xmul_def xsub_def xadd_def)

lemma greeks_far_point:
  assumes h: "94 \<le> h" "h * h < overflow_bound" "overflow_bound \<le> h * h * (h * h)"
  shows "calculate_greeks (PyFloat, Fin (h * h)) (PyFloat, Fin (h * h)) (Fin (h * h)) (Fin 0)
           (Fin 1) = Inr (Fin 1, NZero, Fin 0, NaN)"
proof -
  have hh: "h \<le> h * h"
    using h(1) by simp
  have d: "h \<noteq> 0" "0 < h" "0 \<le> h" "47 \<le> h / 2" "- (h / 2) \<le> - 47" "47 \<le> \<bar>h / 2\<bar>"
    using h(1) by simp_all
  have r: "in_range h" "in_range (2 * h)"
    using h(1) hh by (intro in_range_upto [OF _ _ h(2)]; simp)+
  have delta: "spec_delta (Fin (h * h)) (Fin (h * h)) (Fin (h * h)) (Fin 0) (Fin 1) = Fin 1"
    using d by (simp add: spec_delta_def far_point [OF h] eval_rules)
  have vega: "spec_vega (Fin (h * h)) (Fin (h * h)) (Fin (h * h)) (Fin 0) (Fin 1) = Fin 0"
    using d by (simp add: spec_vega_def far_point [OF h] eval_rules)
  have theta: "spec_theta (Fin (h * h)) (Fin (h * h)) (Fin (h * h)) (Fin 0) (Fin 1) = NZero"
    using d by (simp add: spec_theta_def far_point [OF h] eval_rules r neg_zero_rules)
  have "xmul (Fin (h * h)) (Fin (h * h)) = PInf"
    using d h(3) by (intro xmul_overflow) simp_all
  then have rho: "spec_rho (Fin (h * h)) (Fin (h * h)) (Fin (h * h)) (Fin 0) (Fin 1) = NaN"
    using d by (simp add: spec_rho_def far_point [OF h] eval_rules neg_zero_rules)
  show ?thesis
    using d by (simp add: calculate_greeks_eq val_def delta theta vega rho eval_rules)
qed

lemma greeks_huge:
  "calculate_greeks (PyFloat, Fin (2 ^ 600)) (PyFloat, Fin (2 ^ 600)) (Fin (2 ^ 600)) (Fin 0)
     (Fin 1) = Inr (Fin 1, NZero, Fin 0, NaN)"
  using greeks_far_point [of "2 ^ 300"] by (simp add: overflow_bound_def)

subsection \<open>The smallest positive number\<close>





lemma xmul_underflow:
  assumes "0 < a" "0 < b" "a * b \<le> underflow_bound"
  shows "xmul (Fin a) (Fin b) = Fin 0"
proof -
  have p: "0 < a * b"
    using assms by simp
  then have "\<not> overflow_bound \<le> a * b" "\<not> a * b \<le> - overflow_bound"
    "\<bar>a * b\<bar> \<le> underflow_bound" "\<not> a * b < 0"
    using assms(3) bounds_order by linarith+
  then have "saturate (a * b) = Fin 0"
    by (simp only: saturate_def signed_zero_def if_True if_False)
  then show ?thesis
    using assms by (simp add: xmul_def)
qed








subsection \<open>Negative rates\<close>









subsection \<open>A small maturity and volatility\<close>

lemma np_sqrt_square: "0 \<le> u \<Longrightarrow> np_sqrt (Fin (u * u)) = Fin u"
  by simp

lemma tiny_point:
  assumes u: "0 < u" "in_range (u * u / 20)" "0 < s" "s * s \<le> underflow_bound"
    "s * u \<le> underflow_bound"
  shows "spec_d1 (Fin 100) (Fin 100) (Fin (u * u)) (Fin (1 / 20)) (Fin s) = PInf"
proof -
  have sq: "xmul (Fin s) (Fin s) = Fin 0"
    using u by (intro xmul_underflow) simp_all
  have den: "xmul (Fin s) (Fin u) = Fin 0"
    using u by (intro xmul_underflow) simp_all
  have root: "np_sqrt (Fin (u * u)) = Fin u"
    using u(1) by simp
  have "xmul (Fin (1 / 20)) (Fin (u * u)) = Fin (1 / 20 * (u * u))"
    using u(1,2) by (intro xmul_Fin) simp_all
  then have num: "xmul (Fin (1 / 20)) (Fin (u * u)) = Fin (u * u / 20)"
    by simp
  have "xadd (Fin 0) (Fin (u * u / 20)) = Fin (0 + u * u / 20)"
    using u(2) by (intro xadd_Fin) simp
  then have sum: "xadd (Fin 0) (Fin (u * u / 20)) = Fin (u * u / 20)"
    by simp
  have "u * u / 20 \<noteq> 0"
    using u(1) by simp
  then have quot: "xdiv (Fin (u * u / 20)) (Fin 0) = PInf"
    using u(1) by (simp add: xdiv_def signed_inf_def)
  have "spec_d1 (Fin 100) (Fin 100) (Fin (u * u)) (Fin (1 / 20)) (Fin s) =
      xdiv (xadd (np_log (xdiv (Fin 100) (Fin 100)))
                 (xmul (xadd (Fin (1 / 20)) (xmul (Fin (1 / 2)) (xmul (Fin s) (Fin s))))
                       (Fin (u * u))))
           (xmul (Fin s) (np_sqrt (Fin (u * u))))"
    by (simp add: spec_d1_def)
  also have "\<dots> = xdiv (xadd (Fin 0) (xmul (Fin (1 / 20)) (Fin (u * u)))) (Fin 0)"
    by (simp only: sq den root) (simp add: eval_rules)
  also have "\<dots> = PInf"
    by (simp only: num sum quot)
  finally show ?thesis .
qed

lemma d1_tiny:
  "d1 (PyFloat, Fin 100) (PyFloat, Fin 100) (Fin (1 / 2 ^ 1000)) (Fin (1 / 20))
     (Fin (1 / 2 ^ 700)) = Inr PInf"
proof -
  have r: "in_range (1 / 2 ^ 500 * (1 / 2 ^ 500) / 20)"
    by (simp add: in_range_def underflow_bound_def overflow_bound_def)
  have "spec_d1 (Fin 100) (Fin 100) (Fin (1 / 2 ^ 500 * (1 / 2 ^ 500))) (Fin (1 / 20))
      (Fin (1 / 2 ^ 700)) = PInf"
    by (rule tiny_point [OF _ r]) (simp_all add: underflow_bound_def)
  moreover have "\<not> square_overflows (Fin (1 / 2 ^ 700))"
    by (simp add: square_overflows_def overflow_bound_def)
  ultimately show ?thesis
    by (simp add: d1_eq div_by_zero_def val_def)
qed

lemma d2_tiny:
  "d2 (PyFloat, Fin 100) (PyFloat, Fin 100) (Fin (1 / 2 ^ 1000)) (Fin (1 / 20))
     (Fin (1 / 2 ^ 700)) = Inr PInf"
proof -
  have den: "xmul (Fin (1 / 2 ^ 700)) (Fin (1 / 2 ^ 500)) = Fin 0"
    by (rule xmul_underflow) (simp_all add: underflow_bound_def)
  have root: "np_sqrt (Fin (1 / 2 ^ 500 * (1 / 2 ^ 500))) = Fin (1 / 2 ^ 500)"
    by (rule np_sqrt_square) simp
  have t: "(1::real) / 2 ^ 1000 = 1 / 2 ^ 500 * (1 / 2 ^ 500)"
    by simp
  have "d1 (PyFloat, Fin 100) (PyFloat, Fin 100) (Fin (1 / 2 ^ 1000)) (Fin (1 / 20))
      (Fin (1 / 2 ^ 700)) = Inr PInf"
    by (rule d1_tiny)
  then have "d2 (PyFloat, Fin 100) (PyFloat, Fin 100) (Fin (1 / 2 ^ 1000)) (Fin (1 / 20))
      (Fin (1 / 2 ^ 700)) =
      Inr (xsub PInf (xmul (Fin (1 / 2 ^ 700)) (np_sqrt (Fin (1 / 2 ^ 1000)))))"
    by (simp only: d2_def sum.case)
  also have "\<dots> = Inr (xsub PInf (Fin 0))"
    by (simp only: t root den)
  also have "\<dots> = Inr PInf"
    by (simp add: inf_rules)
  finally show ?thesis .
qed

subsection \<open>The two arguments of the distribution function\<close>

text \<open>
  C5 reads: for every input in the valid domain, \<^verbatim>\<open>d1\<close> returns the value of
  \<open>(ln (S / K) + (r + \<sigma>\<^sup>2 / 2) T) / (\<sigma> \<surd>T)\<close>. Two inputs of the valid domain, both with
  \<open>S = K = 100\<close> and \<open>r = 0.05\<close>: at \<open>T = 1\<close>, \<open>\<sigma> = 2 ^ 600\<close> the power \<^verbatim>\<open>sigma ** 2\<close>
  raises \<^verbatim>\<open>OverflowError\<close> and \<^verbatim>\<open>d1\<close> returns no value; at \<open>T = 2 ^ -1000\<close>,
  \<open>\<sigma> = 2 ^ -700\<close> the product \<open>\<sigma> \<surd>T\<close> underflows to \<open>0.0\<close> and \<^verbatim>\<open>d1\<close> returns \<open>inf\<close>, where
  the value of the formula is \<open>0.05 * 2 ^ 200\<close>.
\<close>

theorem d1_fails_at_extreme_volatility:
  "d1 (PyFloat, Fin 100) (PyFloat, Fin 100) (Fin 1) (Fin (1 / 20)) (Fin (2 ^ 600)) =
     Inl OverflowError \<and>
   d1 (PyFloat, Fin 100) (PyFloat, Fin 100) (Fin (1 / 2 ^ 1000)) (Fin (1 / 20))
     (Fin (1 / 2 ^ 700)) = Inr PInf"
  using square_huge d1_tiny by (simp add: d1_eq div_by_zero_def)

text \<open>
  C5, as the code behaves: on every input \<^verbatim>\<open>d1\<close> raises \<^verbatim>\<open>ZeroDivisionError\<close> when \<open>S\<close> and
  \<open>K\<close> are built-in floats and \<open>K\<close> is a zero, else raises \<^verbatim>\<open>OverflowError\<close> when \<open>\<sigma>\<close> is
  finite and \<open>\<sigma>\<^sup>2\<close> leaves the range of binary64, and else returns the formula of the
  specification evaluated in binary64, which may be an infinity or NaN.
\<close>

theorem d1_formula:
  "d1 S K T r sigma =
     (if div_by_zero S K then Inl ZeroDivisionError
      else if square_overflows sigma then Inl OverflowError
      else Inr (spec_d1 (val S) (val K) T r sigma))"
  by (rule d1_eq)

text \<open>
  C6 reads: for every input in the valid domain, \<^verbatim>\<open>d2\<close> returns \<open>d1 - \<sigma> \<surd>T\<close>. At the
  first of the two inputs above, the call of \<^verbatim>\<open>d1\<close> inside \<^verbatim>\<open>d2\<close> raises
  \<^verbatim>\<open>OverflowError\<close> and \<^verbatim>\<open>d2\<close> returns no value. At the second, \<^verbatim>\<open>d1\<close> returns \<open>inf\<close>
  and \<^verbatim>\<open>d2\<close> returns \<open>inf - 0.0\<close>, which is \<open>inf\<close>.
\<close>

theorem d2_fails_at_extreme_volatility:
  "d2 (PyFloat, Fin 100) (PyFloat, Fin 100) (Fin 1) (Fin (1 / 20)) (Fin (2 ^ 600)) =
     Inl OverflowError \<and>
   d2 (PyFloat, Fin 100) (PyFloat, Fin 100) (Fin (1 / 2 ^ 1000)) (Fin (1 / 20))
     (Fin (1 / 2 ^ 700)) = Inr PInf"
  using square_huge d2_tiny by (simp add: d2_eq div_by_zero_def)

text \<open>
  C6, as the code behaves: \<^verbatim>\<open>d2\<close> raises whatever its call of \<^verbatim>\<open>d1\<close> raises, and else
  returns the binary64 difference of the value of \<^verbatim>\<open>d1\<close> and the binary64 product
  \<open>\<sigma> \<surd>T\<close>.
\<close>

theorem d2_formula:
  "d2 S K T r sigma =
     (if div_by_zero S K then Inl ZeroDivisionError
      else if square_overflows sigma then Inl OverflowError
      else Inr (xsub (spec_d1 (val S) (val K) T r sigma) (xmul sigma (np_sqrt T))))"
  by (simp add: d2_eq spec_d2_def)

subsection \<open>Prices and Greeks\<close>

text \<open>
  C2 reads: for every input in the valid domain, \<^verbatim>\<open>black_scholes\<close> returns the pair of the
  call price \<open>S \<Phi>(d1) - K e\<^sup>-\<^sup>r\<^sup>T \<Phi>(d2)\<close> and the put price \<open>K e\<^sup>-\<^sup>r\<^sup>T \<Phi>(-d2) - S \<Phi>(-d1)\<close>. At
  \<open>\<sigma> = 2 ^ 600\<close> it raises \<^verbatim>\<open>OverflowError\<close> and returns no pair.
\<close>

theorem black_scholes_raises_at_huge_volatility:
  "black_scholes (PyFloat, Fin 100) (PyFloat, Fin 100) (Fin 1) (Fin (1 / 20)) (Fin (2 ^ 600)) =
     Inl OverflowError"
  using square_huge by (simp add: black_scholes_eq div_by_zero_def)

text \<open>
  C2, as the code behaves: \<^verbatim>\<open>black_scholes\<close> raises where \<^verbatim>\<open>d1\<close> raises, and else returns
  the two formulas of the specification evaluated in binary64.
\<close>

theorem black_scholes_formula:
  "black_scholes S K T r sigma =
     (if div_by_zero S K then Inl ZeroDivisionError
      else if square_overflows sigma then Inl OverflowError
      else Inr (spec_call (val S) (val K) T r sigma, spec_put (val S) (val K) T r sigma))"
  by (rule black_scholes_eq)

text \<open>
  C4 reads: for every input in the valid domain, \<^verbatim>\<open>calculate_greeks\<close> returns delta, theta,
  vega and rho by their four formulas. At \<open>\<sigma> = 2 ^ 600\<close> it raises \<^verbatim>\<open>OverflowError\<close> and
  returns nothing.
\<close>

theorem calculate_greeks_raises_at_huge_volatility:
  "calculate_greeks (PyFloat, Fin 100) (PyFloat, Fin 100) (Fin 1) (Fin (1 / 20)) (Fin (2 ^ 600)) =
     Inl OverflowError"
  using square_huge by (simp add: calculate_greeks_eq div_by_zero_def)

text \<open>
  C4, as the code behaves: \<^verbatim>\<open>calculate_greeks\<close> raises where \<^verbatim>\<open>d1\<close> raises, and else
  returns the four formulas of the specification evaluated in binary64.
\<close>

theorem calculate_greeks_formula:
  "calculate_greeks S K T r sigma =
     (if div_by_zero S K then Inl ZeroDivisionError
      else if square_overflows sigma then Inl OverflowError
      else Inr (spec_delta (val S) (val K) T r sigma, spec_theta (val S) (val K) T r sigma,
                spec_vega (val S) (val K) T r sigma, spec_rho (val S) (val K) T r sigma))"
  by (rule calculate_greeks_eq)

subsection \<open>Parity and finiteness\<close>




subsection \<open>Bounds on the Greeks\<close>

text \<open>
  C7 reads: for every input in the valid domain with \<open>r \<ge> 0\<close>, delta lies in \<open>[0, 1]\<close>, vega
  is at least 0 and rho is at least 0. At \<open>S = K = T = 2 ^ 600\<close>, \<open>r = 0\<close>, \<open>\<sigma> = 1\<close> the product
  \<open>K T\<close> is \<open>inf\<close> and \<open>\<Phi>(d2)\<close> is \<open>0.0\<close>: rho is NaN, which is not at least 0.
\<close>

theorem rho_is_nan_at_huge_strike_and_maturity:
  "calculate_greeks (PyFloat, Fin (2 ^ 600)) (PyFloat, Fin (2 ^ 600)) (Fin (2 ^ 600)) (Fin 0)
     (Fin 1) = Inr (Fin 1, NZero, Fin 0, NaN) \<and> \<not> xle (Fin 0) NaN"
  using greeks_huge by (simp add: xle_def)

text \<open>
  C7, as the code behaves: on positive finite \<open>S\<close>, \<open>K\<close>, \<open>T\<close>, \<open>\<sigma>\<close> with \<open>\<sigma>\<^sup>2\<close> in range,
  \<^verbatim>\<open>calculate_greeks\<close> returns four numbers of which delta is NaN or in \<open>[0, 1]\<close>, vega is NaN
  or at least 0, and rho is NaN or at least 0.
\<close>

theorem greek_bounds:
  assumes "0 < S" "0 < K" "0 < T" "0 < sigma" "sigma * sigma < overflow_bound"
  shows "\<exists>delta theta vega rho.
           calculate_greeks (k1, Fin S) (k2, Fin K) (Fin T) (Fin r) (Fin sigma) =
             Inr (delta, theta, vega, rho) \<and>
           (delta = NaN \<or> (xle (Fin 0) delta \<and> xle delta (Fin 1))) \<and>
           (vega = NaN \<or> xle (Fin 0) vega) \<and>
           (rho = NaN \<or> xle (Fin 0) rho)"
  using valid_no_error [OF assms(2,5)] greeks_in_bounds [OF assms(1-3)]
  by (simp add: calculate_greeks_eq val_def)

theorem greek_bounds_witness:
  "\<exists>delta theta vega rho.
     calculate_greeks (PyFloat, Fin 100) (PyFloat, Fin 100) (Fin 1) (Fin (1 / 20)) (Fin (1 / 5)) =
       Inr (delta, theta, vega, rho) \<and>
     (delta = NaN \<or> (xle (Fin 0) delta \<and> xle delta (Fin 1))) \<and>
     (vega = NaN \<or> xle (Fin 0) vega) \<and>
     (rho = NaN \<or> xle (Fin 0) rho)"
  using greek_bounds [of 100 100 1 "1 / 5" PyFloat PyFloat "1 / 20"] bounds_pos(3)
  by simp

subsection \<open>Monotonicity and sign of the prices\<close>







subsection \<open>Homogeneity\<close>




subsection \<open>Inputs outside the domain\<close>

text \<open>
  C3 reads: at \<open>T = 0\<close>, \<open>sigma = 0\<close>, \<open>S = -1\<close> and \<open>K = 0\<close> the engine signals an
  InvalidParameter error before it computes anything. The engine validates nothing. At
  \<open>T = 0\<close> with \<open>S = K = 100\<close>, \<open>r = 0.05\<close>, \<open>sigma = 0.2\<close> the quotient of \<open>d1\<close> is
  \<open>0 / 0\<close>, and \<open>black_scholes\<close> returns the pair (NaN, NaN) as an ordinary result.
\<close>

theorem black_scholes_at_zero_maturity_returns_nan:
  "black_scholes (PyFloat, Fin 100) (PyFloat, Fin 100) (Fin 0) (Fin (1 / 20)) (Fin (1 / 5)) =
     Inr (NaN, NaN)"
  by (rule black_scholes_t0)

text \<open>
  C3, as the code behaves: none of the four inputs is rejected as an invalid parameter.
  With the other parameters at \<open>S = K = 100\<close>, \<open>T = 1\<close>, \<open>r = 0.05\<close>, \<open>sigma = 0.2\<close>,
  \<open>black_scholes\<close> returns the pair (NaN, NaN) at \<open>T = 0\<close> and at \<open>S = -1\<close>, and the
  finite pair \<open>(100 - 100 * exp (- 0.05), 0)\<close> at \<open>sigma = 0\<close>. At \<open>K = 0\<close> it
  returns \<open>(100, 0)\<close> when the strike is a NumPy scalar; between built-in floats the
  division \<open>S / K\<close> raises Python's own ZeroDivisionError.
\<close>

theorem black_scholes_out_of_domain:
  "black_scholes (PyFloat, Fin 100) (PyFloat, Fin 100) (Fin 0) (Fin (1 / 20)) (Fin (1 / 5)) =
     Inr (NaN, NaN) \<and>
   black_scholes (PyFloat, Fin 100) (PyFloat, Fin 100) (Fin 1) (Fin (1 / 20)) (Fin 0) =
     Inr (Fin (100 - 100 * exp (- (1 / 20))), Fin 0) \<and>
   black_scholes (PyFloat, Fin (- 1)) (PyFloat, Fin 100) (Fin 1) (Fin (1 / 20)) (Fin (1 / 5)) =
     Inr (NaN, NaN) \<and>
   black_scholes (PyFloat, Fin 100) (NpFloat64, Fin 0) (Fin 1) (Fin (1 / 20)) (Fin (1 / 5)) =
     Inr (Fin 100, Fin 0) \<and>
   black_scholes (PyFloat, Fin 100) (PyFloat, Fin 0) (Fin 1) (Fin (1 / 20)) (Fin (1 / 5)) =
     Inl ZeroDivisionError"
  using black_scholes_t0 black_scholes_sigma0 black_scholes_negative_spot
    black_scholes_strike0_numpy black_scholes_strike0_builtin
  by (intro conjI)

end
